theory Spec2Isabelle
  imports Main "HOL-Library.AList"
begin

section \<open>The diff as the library hands it to the callbacks\<close>

text \<open>
  The three libgit2 structures the callbacks of \<^verbatim>\<open>git2r_diff.c\<close> read. Only the
  fields the callbacks use are kept. \<open>content\<close> is the span of bytes the line points at;
  its length is the C field \<open>content_len\<close>, and the span may hold NUL bytes.
\<close>

record git_diff_delta =
  old_file_path :: string
  new_file_path :: string

record git_diff_hunk =
  old_start :: int
  old_lines :: int
  new_start :: int
  new_lines :: int
  header :: string

record git_diff_line =
  origin :: int
  old_lineno :: int
  new_lineno :: int
  line_num_lines :: int
  content :: string

definition content_len :: "git_diff_line \<Rightarrow> nat" where
  "content_len line = length (content line)"

text \<open>
  A diff is an ordered sequence of files, each with its hunks, each with its lines
  (DiffResult, FileDelta, Hunk and Line of the data model). \<open>broken\<close> says whether a
  traversal of the diff fails: \<open>Some (n, c)\<close> is a diff whose traversal stops after \<open>n\<close>
  callbacks and reports the negative libgit2 error code \<open>- 1 - c\<close>.
\<close>

type_synonym hunk_patch = "git_diff_hunk \<times> git_diff_line list"
type_synonym file_patch = "git_diff_delta \<times> hunk_patch list"

record git_diff =
  patches :: "file_patch list"
  broken :: "(nat \<times> nat) option"

datatype diff_event =
  File_ev git_diff_delta
| Hunk_ev git_diff_delta git_diff_hunk
| Line_ev git_diff_delta git_diff_hunk git_diff_line

definition hunk_events :: "git_diff_delta \<Rightarrow> hunk_patch \<Rightarrow> diff_event list" where
  "hunk_events delta hp = Hunk_ev delta (fst hp) # map (Line_ev delta (fst hp)) (snd hp)"

definition file_events :: "file_patch \<Rightarrow> diff_event list" where
  "file_events fp = File_ev (fst fp) # concat (map (hunk_events (fst fp)) (snd fp))"

definition diff_events :: "file_patch list \<Rightarrow> diff_event list" where
  "diff_events fps = concat (map file_events fps)"

text \<open>
  Modelled from the spec: \<^verbatim>\<open>git_diff_foreach\<close> of the wrapped library, "a forward-only
  traversal primitive accepting four callback slots (file, binary, hunk, line) and an
  opaque payload pointer, invoked synchronously". The binary slot is always NULL in
  this repository and is left out. A callback returns \<open>Inl\<close> when it does not return at
  all (an R error or a memory fault), else its C return value and the payload as it
  left it; a non-zero return value ends the traversal with that value.
\<close>

type_synonym ('f, 's) file_cb = "git_diff_delta option \<Rightarrow> 's \<Rightarrow> 'f + int \<times> 's"
type_synonym ('f, 's) hunk_cb = "git_diff_delta option \<Rightarrow> git_diff_hunk option \<Rightarrow> 's \<Rightarrow> 'f + int \<times> 's"
type_synonym ('f, 's) line_cb = "git_diff_delta \<Rightarrow> git_diff_hunk \<Rightarrow> git_diff_line \<Rightarrow> 's \<Rightarrow> 'f + int \<times> 's"

fun invoke :: "('f, 's) file_cb \<Rightarrow> ('f, 's) hunk_cb \<Rightarrow> ('f, 's) line_cb \<Rightarrow>
    diff_event \<Rightarrow> 's \<Rightarrow> 'f + int \<times> 's" where
  "invoke fcb hcb lcb (File_ev delta) s = fcb (Some delta) s"
| "invoke fcb hcb lcb (Hunk_ev delta hunk) s = hcb (Some delta) (Some hunk) s"
| "invoke fcb hcb lcb (Line_ev delta hunk line) s = lcb delta hunk line s"

fun foreach_loop :: "('f, 's) file_cb \<Rightarrow> ('f, 's) hunk_cb \<Rightarrow> ('f, 's) line_cb \<Rightarrow>
    diff_event list \<Rightarrow> 's \<Rightarrow> 'f + int \<times> 's" where
  "foreach_loop fcb hcb lcb [] s = Inr (0, s)"
| "foreach_loop fcb hcb lcb (e # es) s =
     (case invoke fcb hcb lcb e s of
        Inl f \<Rightarrow> Inl f
      | Inr (rc, s') \<Rightarrow> if rc \<noteq> 0 then Inr (rc, s') else foreach_loop fcb hcb lcb es s')"

definition git_diff_foreach :: "git_diff \<Rightarrow> ('f, 's) file_cb \<Rightarrow> ('f, 's) hunk_cb \<Rightarrow>
    ('f, 's) line_cb \<Rightarrow> 's \<Rightarrow> 'f + int \<times> 's" where
  "git_diff_foreach diff fcb hcb lcb s =
     (case broken diff of
        None \<Rightarrow> foreach_loop fcb hcb lcb (diff_events (patches diff)) s
      | Some (n, c) \<Rightarrow>
          (case foreach_loop fcb hcb lcb (take n (diff_events (patches diff))) s of
             Inl f \<Rightarrow> Inl f
           | Inr (rc, s') \<Rightarrow> if rc \<noteq> 0 then Inr (rc, s') else Inr (- 1 - int c, s')))"

text \<open>
  Ways in which a callback of this repository can fail to return: an index outside a
  vector, a value that is not the vector or the object the code takes it for, an
  output location read before anything was written to it, and a write past the end of
  a character buffer.
\<close>

datatype fault = Index_out_of_range | Not_a_vector | Not_an_object | Unset_output | Buffer_overrun

section \<open>The Counting Pass\<close>

text \<open>
  \<^verbatim>\<open>git2r_diff_count_payload\<close>. The \<open>size_t\<close> counters are natural numbers: a counter
  is incremented once per callback, and a traversal makes fewer callbacks than
  \<open>SIZE_MAX\<close>.
\<close>

record git2r_diff_count_payload =
  num_files :: nat
  max_hunks :: nat
  max_lines :: nat
  num_hunks :: nat
  num_lines :: nat

definition git2r_diff_count_file_cb :: "(fault, git2r_diff_count_payload) file_cb" where
  "git2r_diff_count_file_cb delta n =
     Inr (0, n\<lparr>num_files := num_files n + 1, num_hunks := 0, num_lines := 0\<rparr>)"

definition git2r_diff_count_hunk_cb :: "(fault, git2r_diff_count_payload) hunk_cb" where
  "git2r_diff_count_hunk_cb delta hunk n =
     (let n1 = n\<lparr>num_hunks := num_hunks n + 1\<rparr>;
          n2 = (if num_hunks n1 > max_hunks n1 then n1\<lparr>max_hunks := num_hunks n1\<rparr> else n1)
      in Inr (0, n2\<lparr>num_lines := 0\<rparr>))"

definition git2r_diff_count_line_cb :: "(fault, git2r_diff_count_payload) line_cb" where
  "git2r_diff_count_line_cb delta hunk line n =
     (let n1 = n\<lparr>num_lines := num_lines n + 1\<rparr>;
          n2 = (if num_lines n1 > max_lines n1 then n1\<lparr>max_lines := num_lines n1\<rparr> else n1)
      in Inr (0, n2))"

text \<open>
  \<^verbatim>\<open>git2r_diff_count\<close>. The three output pointers are passed in and returned: \<open>None\<close> is
  a location nothing has been written to (the caller's locals are not initialised).
\<close>

type_synonym count_out = "nat option \<times> nat option \<times> nat option"

definition git2r_diff_count :: "git_diff \<Rightarrow> count_out \<Rightarrow> fault + int \<times> count_out" where
  "git2r_diff_count diff out =
     (case git_diff_foreach diff git2r_diff_count_file_cb git2r_diff_count_hunk_cb
             git2r_diff_count_line_cb
             \<lparr>num_files = 0, max_hunks = 0, max_lines = 0, num_hunks = 0, num_lines = 0\<rparr> of
        Inl f \<Rightarrow> Inl f
      | Inr (err, n) \<Rightarrow>
          if err \<noteq> 0 then Inr (- 1, out)
          else Inr (0, (Some (num_files n), Some (max_hunks n), Some (max_lines n))))"

text \<open>The three bounds in the spec's words, read off the diff itself.\<close>

definition file_count :: "git_diff \<Rightarrow> nat" where
  "file_count diff = length (patches diff)"

definition largest_hunk_count :: "git_diff \<Rightarrow> nat" where
  "largest_hunk_count diff = Max (set (0 # map (\<lambda>fp. length (snd fp)) (patches diff)))"

definition largest_line_count :: "git_diff \<Rightarrow> nat" where
  "largest_line_count diff =
     Max (set (0 # map (\<lambda>hp. length (snd hp)) (concat (map snd (patches diff)))))"

section \<open>The R values the Materializing Pass builds\<close>

text \<open>
  The values of the host environment live in a store: an \<open>SEXP\<close> is \<open>R_NilValue\<close> or the
  address of an object, and the objects the code builds are generic vectors, S4
  objects with named slots, and character and integer vectors. The code keeps
  addresses in vectors and slots and changes the objects behind them afterwards, so
  the store is explicit. An allocation takes the next free address; the collector is
  not modelled (every object here is protected or reachable from a protected one).
\<close>

datatype sexp = R_NilValue | Ref nat

datatype robj =
  VECSXP "sexp list"
| S4SXP string "(string \<times> sexp) list"
| STRSXP "string list"
| INTSXP "int list"

type_synonym heap = "robj list"

definition alloc :: "robj \<Rightarrow> heap \<Rightarrow> sexp \<times> heap" where
  "alloc obj h = (Ref (length h), h @ [obj])"

definition Rf_allocVector :: "nat \<Rightarrow> heap \<Rightarrow> sexp \<times> heap" where
  "Rf_allocVector n h = alloc (VECSXP (replicate n R_NilValue)) h"

definition NEW_OBJECT :: "string \<Rightarrow> heap \<Rightarrow> sexp \<times> heap" where
  "NEW_OBJECT cls h = alloc (S4SXP cls []) h"

text \<open>A C string ends at its first NUL byte; \<^verbatim>\<open>Rf_mkString\<close> copies up to there.\<close>

definition c_str :: "string \<Rightarrow> string" where
  "c_str s = takeWhile (\<lambda>c. c \<noteq> CHR 0x00) s"

definition Rf_mkString :: "string \<Rightarrow> heap \<Rightarrow> sexp \<times> heap" where
  "Rf_mkString s h = alloc (STRSXP [c_str s]) h"

definition Rf_ScalarInteger :: "int \<Rightarrow> heap \<Rightarrow> sexp \<times> heap" where
  "Rf_ScalarInteger i h = alloc (INTSXP [i]) h"

fun VECTOR_ELT :: "sexp \<Rightarrow> nat \<Rightarrow> heap \<Rightarrow> fault + sexp" where
  "VECTOR_ELT R_NilValue i h = Inl Not_a_vector"
| "VECTOR_ELT (Ref a) i h =
     (if a < length h then
        (case h ! a of
           VECSXP xs \<Rightarrow> if i < length xs then Inr (xs ! i) else Inl Index_out_of_range
         | _ \<Rightarrow> Inl Not_a_vector)
      else Inl Not_a_vector)"

fun SET_VECTOR_ELT :: "sexp \<Rightarrow> nat \<Rightarrow> sexp \<Rightarrow> heap \<Rightarrow> fault + heap" where
  "SET_VECTOR_ELT R_NilValue i v h = Inl Not_a_vector"
| "SET_VECTOR_ELT (Ref a) i v h =
     (if a < length h then
        (case h ! a of
           VECSXP xs \<Rightarrow>
             if i < length xs then Inr (h[a := VECSXP (xs[i := v])]) else Inl Index_out_of_range
         | _ \<Rightarrow> Inl Not_a_vector)
      else Inl Not_a_vector)"

fun SET_SLOT :: "sexp \<Rightarrow> string \<Rightarrow> sexp \<Rightarrow> heap \<Rightarrow> fault + heap" where
  "SET_SLOT R_NilValue name v h = Inl Not_an_object"
| "SET_SLOT (Ref a) name v h =
     (if a < length h then
        (case h ! a of
           S4SXP cls slots \<Rightarrow> Inr (h[a := S4SXP cls (AList.update name v slots)])
         | _ \<Rightarrow> Inl Not_an_object)
      else Inl Not_an_object)"

definition bind_f :: "fault + 'a \<Rightarrow> ('a \<Rightarrow> fault + 'b) \<Rightarrow> fault + 'b" where
  "bind_f m f = (case m of Inl e \<Rightarrow> Inl e | Inr x \<Rightarrow> f x)"

text \<open>\<^verbatim>\<open>SET_SLOT(obj, name, Rf_ScalarInteger(i))\<close> and \<^verbatim>\<open>SET_SLOT(obj, name, Rf_mkString(s))\<close>.\<close>

definition set_int_slot :: "sexp \<Rightarrow> string \<Rightarrow> int \<Rightarrow> heap \<Rightarrow> fault + heap" where
  "set_int_slot obj name i h = (case Rf_ScalarInteger i h of (v, h') \<Rightarrow> SET_SLOT obj name v h')"

definition set_str_slot :: "sexp \<Rightarrow> string \<Rightarrow> string \<Rightarrow> heap \<Rightarrow> fault + heap" where
  "set_str_slot obj name s h = (case Rf_mkString s h of (v, h') \<Rightarrow> SET_SLOT obj name v h')"

text \<open>
  The loop \<^verbatim>\<open>for (i = 0; i < len; i++) SET_VECTOR_ELT(dst, i, VECTOR_ELT(src, i));\<close>
  of both flushes.
\<close>

function copy_elts :: "sexp \<Rightarrow> sexp \<Rightarrow> nat \<Rightarrow> nat \<Rightarrow> heap \<Rightarrow> fault + heap" where
  "copy_elts dst src i len h =
     (if i < len then
        bind_f (VECTOR_ELT src i h) (\<lambda>v.
        bind_f (SET_VECTOR_ELT dst i v h) (\<lambda>h'.
        copy_elts dst src (i + 1) len h'))
      else Inr h)"
  by pat_completeness auto
termination
  by (relation "measure (\<lambda>(dst, src, i, len, h). len - i)") auto

section \<open>The Materializing Pass\<close>

record git2r_diff_payload =
  result :: sexp
  hunk_tmp :: sexp
  line_tmp :: sexp
  file_ptr :: nat
  hunk_ptr :: nat
  line_ptr :: nat

text \<open>
  What the callbacks work on: the payload structure, the store, and the contents of
  \<^verbatim>\<open>static char short_buffer[200]\<close> of the line callback, which outlive a call.
\<close>

type_synonym mstate = "git2r_diff_payload \<times> heap \<times> string"

text \<open>
  The first block of \<^verbatim>\<open>git2r_diff_get_hunk_cb\<close>: the lines staged in \<open>line_tmp\<close> become
  the \<open>lines\<close> slot of the hunk staged last.
\<close>

definition save_lines :: "git2r_diff_payload \<Rightarrow> heap \<Rightarrow> fault + heap" where
  "save_lines p h =
     (if hunk_ptr p \<noteq> 0 then
        (case Rf_allocVector (line_ptr p) h of (lines, h1) \<Rightarrow>
           bind_f (VECTOR_ELT (hunk_tmp p) (hunk_ptr p - 1) h1) (\<lambda>hunk_obj.
           bind_f (SET_SLOT hunk_obj ''lines'' lines h1) (\<lambda>h2.
           copy_elts lines (line_tmp p) 0 (line_ptr p) h2)))
      else Inr h)"

text \<open>
  The second block of \<^verbatim>\<open>git2r_diff_get_hunk_cb\<close>: a new hunk object, without lines, is
  staged in \<open>hunk_tmp\<close>.
\<close>

definition push_hunk ::
    "git_diff_hunk \<Rightarrow> git2r_diff_payload \<Rightarrow> heap \<Rightarrow> fault + git2r_diff_payload \<times> heap" where
  "push_hunk hk p h =
     (case NEW_OBJECT ''git_diff_hunk'' h of (hunk_obj, h2) \<Rightarrow>
        bind_f (SET_VECTOR_ELT (hunk_tmp p) (hunk_ptr p) hunk_obj h2) (\<lambda>h3.
        bind_f (set_int_slot hunk_obj ''old_start'' (old_start hk) h3) (\<lambda>h4.
        bind_f (set_int_slot hunk_obj ''old_lines'' (old_lines hk) h4) (\<lambda>h5.
        bind_f (set_int_slot hunk_obj ''new_start'' (new_start hk) h5) (\<lambda>h6.
        bind_f (set_int_slot hunk_obj ''new_lines'' (new_lines hk) h6) (\<lambda>h7.
        bind_f (set_str_slot hunk_obj ''header'' (header hk) h7) (\<lambda>h8.
        Inr (p\<lparr>hunk_ptr := hunk_ptr p + 1, line_ptr := 0\<rparr>, h8))))))))"

definition git2r_diff_get_hunk_cb :: "(fault, mstate) hunk_cb" where
  "git2r_diff_get_hunk_cb delta hunk s =
     (case s of (p, h, sb) \<Rightarrow>
        bind_f (save_lines p h) (\<lambda>h1.
        case hunk of
          None \<Rightarrow> Inr (0, (p, h1, sb))
        | Some hk \<Rightarrow> bind_f (push_hunk hk p h1) (\<lambda>(p', h2). Inr (0, (p', h2, sb)))))"

text \<open>
  The second block of \<^verbatim>\<open>git2r_diff_get_file_cb\<close>: the hunks staged in \<open>hunk_tmp\<close> become
  the \<open>hunks\<close> slot of the file entered last.
\<close>

definition save_hunks :: "git2r_diff_payload \<Rightarrow> heap \<Rightarrow> fault + heap" where
  "save_hunks p h =
     (if file_ptr p \<noteq> 0 then
        (case Rf_allocVector (hunk_ptr p) h of (hunks, h1) \<Rightarrow>
           bind_f (VECTOR_ELT (result p) (file_ptr p - 1) h1) (\<lambda>file_obj.
           bind_f (SET_SLOT file_obj ''hunks'' hunks h1) (\<lambda>h2.
           copy_elts hunks (hunk_tmp p) 0 (hunk_ptr p) h2)))
      else Inr h)"

text \<open>
  The third block of \<^verbatim>\<open>git2r_diff_get_file_cb\<close>: a new file object, without hunks,
  is put into the result.
\<close>

definition push_file ::
    "git_diff_delta \<Rightarrow> git2r_diff_payload \<Rightarrow> heap \<Rightarrow> fault + git2r_diff_payload \<times> heap" where
  "push_file d p h =
     (case NEW_OBJECT ''git_diff_file'' h of (file_obj, h3) \<Rightarrow>
        bind_f (SET_VECTOR_ELT (result p) (file_ptr p) file_obj h3) (\<lambda>h4.
        bind_f (set_str_slot file_obj ''old_file'' (old_file_path d) h4) (\<lambda>h5.
        bind_f (set_str_slot file_obj ''new_file'' (new_file_path d) h5) (\<lambda>h6.
        Inr (p\<lparr>file_ptr := file_ptr p + 1, hunk_ptr := 0, line_ptr := 0\<rparr>, h6)))))"

definition git2r_diff_get_file_cb :: "(fault, mstate) file_cb" where
  "git2r_diff_get_file_cb delta s =
     bind_f (git2r_diff_get_hunk_cb delta None s) (\<lambda>(rc, s1).
     case s1 of (p, h1, sb) \<Rightarrow>
        bind_f (save_hunks p h1) (\<lambda>h2.
        case delta of
          None \<Rightarrow> Inr (0, (p, h2, sb))
        | Some d \<Rightarrow> bind_f (push_file d p h2) (\<lambda>(p', h3). Inr (0, (p', h3, sb)))))"

text \<open>
  Character buffers of C: a buffer is the list of its bytes, and a write outside it is
  a fault. \<open>memcpy_buf buf src n\<close> is \<^verbatim>\<open>memcpy(buf, src, n)\<close>, \<open>store_byte buf i c\<close> is
  \<^verbatim>\<open>buf[i] = c\<close>.
\<close>

definition memcpy_buf :: "string \<Rightarrow> string \<Rightarrow> nat \<Rightarrow> fault + string" where
  "memcpy_buf buf src n =
     (if n \<le> length buf then Inr (take n src @ drop n buf) else Inl Buffer_overrun)"

definition store_byte :: "string \<Rightarrow> nat \<Rightarrow> char \<Rightarrow> fault + string" where
  "store_byte buf i c = (if i < length buf then Inr (buf[i := c]) else Inl Buffer_overrun)"

definition short_buffer_size :: nat where
  "short_buffer_size = 200"

text \<open>
  Lines 926 to 929 of \<^verbatim>\<open>git2r_diff_get_line_cb\<close>. \<open>buffer\<close> is declared \<^verbatim>\<open>char *\<close>, so
  \<^verbatim>\<open>sizeof(buffer)\<close> is the size of a pointer on the platform, the parameter
  \<open>sizeof_ptr\<close>. The result says whether \<open>buffer\<close> was taken from \<^verbatim>\<open>malloc\<close>, and gives
  the bytes of \<open>buffer\<close> after the copy. Memory from \<^verbatim>\<open>malloc\<close> starts with bytes of no
  known value (here NUL bytes; all of them are written before the buffer is read).
\<close>

definition copy_content :: "nat \<Rightarrow> string \<Rightarrow> git_diff_line \<Rightarrow> fault + bool \<times> string" where
  "copy_content sizeof_ptr short_buffer line =
     (let on_heap = content_len line > sizeof_ptr;
          buffer = (if on_heap then replicate (content_len line + 1) (CHR 0x00)
                    else short_buffer)
      in bind_f (memcpy_buf buffer (content line) (content_len line)) (\<lambda>b1.
         bind_f (store_byte b1 (content_len line) (CHR 0x00)) (\<lambda>b2.
         Inr (on_heap, b2))))"

definition git2r_diff_get_line_cb :: "nat \<Rightarrow> (fault, mstate) line_cb" where
  "git2r_diff_get_line_cb sizeof_ptr delta hunk line s =
     (case s of (p, h, short_buffer) \<Rightarrow>
        (case NEW_OBJECT ''git_diff_line'' h of (line_obj, h1) \<Rightarrow>
           bind_f (SET_VECTOR_ELT (line_tmp p) (line_ptr p) line_obj h1) (\<lambda>h2.
           bind_f (set_int_slot line_obj ''origin'' (origin line) h2) (\<lambda>h3.
           bind_f (set_int_slot line_obj ''old_lineno'' (old_lineno line) h3) (\<lambda>h4.
           bind_f (set_int_slot line_obj ''new_lineno'' (new_lineno line) h4) (\<lambda>h5.
           bind_f (set_int_slot line_obj ''num_lines'' (line_num_lines line) h5) (\<lambda>h6.
           bind_f (copy_content sizeof_ptr short_buffer line) (\<lambda>(on_heap, buffer).
           bind_f (set_str_slot line_obj ''content'' buffer h6) (\<lambda>h7.
           Inr (0, (p\<lparr>line_ptr := line_ptr p + 1\<rparr>, h7,
                    if on_heap then short_buffer else buffer)))))))))))"

text \<open>
  Lines 976 to 979 of \<^verbatim>\<open>git2r_diff_format_to_r\<close>: the result vector, made the \<open>files\<close>
  slot of \<open>dest\<close>, and the two staging vectors, in a payload with all indices 0.
\<close>

definition alloc_payload ::
    "nat \<Rightarrow> nat \<Rightarrow> nat \<Rightarrow> sexp \<Rightarrow> heap \<Rightarrow> fault + git2r_diff_payload \<times> heap" where
  "alloc_payload n_files m_hunks m_lines dest h =
     (case Rf_allocVector n_files h of (res, h1) \<Rightarrow>
        bind_f (SET_SLOT dest ''files'' res h1) (\<lambda>h2.
        case Rf_allocVector m_hunks h2 of (htmp, h3) \<Rightarrow>
        case Rf_allocVector m_lines h3 of (ltmp, h4) \<Rightarrow>
          Inr (\<lparr>result = res, hunk_tmp = htmp, line_tmp = ltmp,
                file_ptr = 0, hunk_ptr = 0, line_ptr = 0\<rparr>, h4)))"

text \<open>
  \<^verbatim>\<open>git2r_diff_format_to_r\<close>. The result is the C return value, and the store and the
  static buffer as the function leaves them.
\<close>

definition git2r_diff_format_to_r ::
    "nat \<Rightarrow> git_diff \<Rightarrow> sexp \<Rightarrow> heap \<times> string \<Rightarrow> fault + int \<times> heap \<times> string" where
  "git2r_diff_format_to_r sizeof_ptr diff dest w =
     (case w of (h, sb) \<Rightarrow>
     bind_f (git2r_diff_count diff (None, None, None)) (\<lambda>(err, out).
       if err \<noteq> 0 then Inr (err, h, sb)
       else
         (case out of
            (Some n_files, Some m_hunks, Some m_lines) \<Rightarrow>
              bind_f (alloc_payload n_files m_hunks m_lines dest h) (\<lambda>(payload, h4).
              bind_f (git_diff_foreach diff git2r_diff_get_file_cb git2r_diff_get_hunk_cb
                        (git2r_diff_get_line_cb sizeof_ptr) (payload, h4, sb))
                (\<lambda>(err, s5).
                   if err = 0 then
                     bind_f (git2r_diff_get_file_cb None s5) (\<lambda>(err, s6).
                     Inr (err, snd s6))
                   else Inr (err, snd s5)))
          | _ \<Rightarrow> Inl Unset_output)))"

section \<open>Reading a result back\<close>

text \<open>
  What an R caller sees behind a value of the store. A slot nothing was assigned to
  holds the prototype of its class; the sequences of hunks and of lines are lists,
  with the empty list as prototype (FileDelta and Hunk of the data model).
\<close>

fun deref :: "heap \<Rightarrow> sexp \<Rightarrow> robj option" where
  "deref h R_NilValue = None"
| "deref h (Ref a) = (if a < length h then Some (h ! a) else None)"

definition read_int :: "heap \<Rightarrow> sexp option \<Rightarrow> int option" where
  "read_int h v =
     (case v of None \<Rightarrow> None
      | Some r \<Rightarrow> (case deref h r of Some (INTSXP [i]) \<Rightarrow> Some i | _ \<Rightarrow> None))"

definition read_str :: "heap \<Rightarrow> sexp option \<Rightarrow> string option" where
  "read_str h v =
     (case v of None \<Rightarrow> None
      | Some r \<Rightarrow> (case deref h r of Some (STRSXP [s]) \<Rightarrow> Some s | _ \<Rightarrow> None))"

definition read_list :: "heap \<Rightarrow> sexp option \<Rightarrow> sexp list option" where
  "read_list h v =
     (case v of None \<Rightarrow> Some []
      | Some r \<Rightarrow> (case deref h r of Some (VECSXP xs) \<Rightarrow> Some xs | _ \<Rightarrow> None))"

definition read_line :: "heap \<Rightarrow> sexp \<Rightarrow> git_diff_line option" where
  "read_line h v =
     (case deref h v of
        Some (S4SXP cls sl) \<Rightarrow>
          (if cls = ''git_diff_line'' then
             (case (read_int h (map_of sl ''origin''), read_int h (map_of sl ''old_lineno''),
                    read_int h (map_of sl ''new_lineno''), read_int h (map_of sl ''num_lines''),
                    read_str h (map_of sl ''content'')) of
                (Some a, Some b, Some c, Some d, Some e) \<Rightarrow>
                  Some \<lparr>origin = a, old_lineno = b, new_lineno = c, line_num_lines = d,
                        content = e\<rparr>
              | _ \<Rightarrow> None)
           else None)
      | _ \<Rightarrow> None)"

definition read_hunk :: "heap \<Rightarrow> sexp \<Rightarrow> hunk_patch option" where
  "read_hunk h v =
     (case deref h v of
        Some (S4SXP cls sl) \<Rightarrow>
          (if cls = ''git_diff_hunk'' then
             (case (read_int h (map_of sl ''old_start''), read_int h (map_of sl ''old_lines''),
                    read_int h (map_of sl ''new_start''), read_int h (map_of sl ''new_lines''),
                    read_str h (map_of sl ''header''),
                    Option.bind (read_list h (map_of sl ''lines''))
                      (\<lambda>lv. those (map (read_line h) lv))) of
                (Some a, Some b, Some c, Some d, Some e, Some ls) \<Rightarrow>
                  Some (\<lparr>old_start = a, old_lines = b, new_start = c, new_lines = d,
                         header = e\<rparr>, ls)
              | _ \<Rightarrow> None)
           else None)
      | _ \<Rightarrow> None)"

definition read_file :: "heap \<Rightarrow> sexp \<Rightarrow> file_patch option" where
  "read_file h v =
     (case deref h v of
        Some (S4SXP cls sl) \<Rightarrow>
          (if cls = ''git_diff_file'' then
             (case (read_str h (map_of sl ''old_file''), read_str h (map_of sl ''new_file''),
                    Option.bind (read_list h (map_of sl ''hunks''))
                      (\<lambda>hv. those (map (read_hunk h) hv))) of
                (Some a, Some b, Some hs) \<Rightarrow>
                  Some (\<lparr>old_file_path = a, new_file_path = b\<rparr>, hs)
              | _ \<Rightarrow> None)
           else None)
      | _ \<Rightarrow> None)"

text \<open>The \<open>files\<close> slot of a \<open>git_diff\<close> object.\<close>

definition read_files :: "heap \<Rightarrow> sexp \<Rightarrow> file_patch list option" where
  "read_files h dest =
     (case deref h dest of
        Some (S4SXP cls sl) \<Rightarrow>
          Option.bind (read_list h (map_of sl ''files'')) (\<lambda>fv. those (map (read_file h) fv))
      | _ \<Rightarrow> None)"

text \<open>
  What the structured result is to hold for a diff: the diff itself, every string cut
  at its first NUL byte (the known limitation of the line content).
\<close>

definition r_line :: "git_diff_line \<Rightarrow> git_diff_line" where
  "r_line l = l\<lparr>content := c_str (content l)\<rparr>"

definition r_hunk :: "hunk_patch \<Rightarrow> hunk_patch" where
  "r_hunk hp = ((fst hp)\<lparr>header := c_str (header (fst hp))\<rparr>, map r_line (snd hp))"

definition r_file :: "file_patch \<Rightarrow> file_patch" where
  "r_file fp =
     (\<lparr>old_file_path = c_str (old_file_path (fst fp)),
       new_file_path = c_str (new_file_path (fst fp))\<rparr>, map r_hunk (snd fp))"

section \<open>A diff to run the passes on\<close>

text \<open>
  Two files: the first with a hunk of two lines and a hunk of one line, the second
  (renamed, no change of content) with no hunk at all.
\<close>

definition example_line1 :: git_diff_line where
  "example_line1 =
     \<lparr>origin = 43, old_lineno = - 1, new_lineno = 1, line_num_lines = 1,
      content = ''a line longer than a pointer''\<rparr>"

definition example_line2 :: git_diff_line where
  "example_line2 =
     \<lparr>origin = 45, old_lineno = 2, new_lineno = - 1, line_num_lines = 1, content = ''ab''\<rparr>"

definition example_hunk :: git_diff_hunk where
  "example_hunk =
     \<lparr>old_start = 1, old_lines = 2, new_start = 1, new_lines = 3, header = ''@@ -1,2 +1,3 @@''\<rparr>"

definition example_diff :: git_diff where
  "example_diff =
     \<lparr>patches =
        [(\<lparr>old_file_path = ''a.txt'', new_file_path = ''a.txt''\<rparr>,
          [(example_hunk, [example_line1, example_line2]), (example_hunk, [example_line2])]),
         (\<lparr>old_file_path = ''b.txt'', new_file_path = ''c.txt''\<rparr>, [])],
      broken = None\<rparr>"

section \<open>Correctness of the Counting Pass\<close>


lemma foreach_loop_append:
  "foreach_loop F H L (es @ es') s =
     (case foreach_loop F H L es s of
        Inl f \<Rightarrow> Inl f
      | Inr (rc, s') \<Rightarrow> if rc \<noteq> 0 then Inr (rc, s') else foreach_loop F H L es' s')"
  by (induction es arbitrary: s) (auto split: sum.splits)

lemma Max_set_0_append:
  "Max (set ((0::nat) # xs @ ys)) = max (Max (set (0 # xs))) (Max (set (0 # ys)))"
proof -
  have "set (0 # xs @ ys) = insert 0 (set xs) \<union> insert 0 (set ys)" by auto
  then have "Max (set (0 # xs @ ys)) = max (Max (insert 0 (set xs))) (Max (insert 0 (set ys)))"
    by (simp only: Max.union [of "insert 0 (set xs)" "insert 0 (set ys)"] finite_insert finite_set insert_not_empty not_False_eq_True)
  then show ?thesis by simp
qed

abbreviation count_loop where
  "count_loop \<equiv> foreach_loop git2r_diff_count_file_cb git2r_diff_count_hunk_cb git2r_diff_count_line_cb"

lemma count_lines:
  "num_lines n \<le> max_lines n \<Longrightarrow>
   count_loop (map (Line_ev d k) ls) n =
     Inr (0, n\<lparr>num_lines := num_lines n + length ls,
               max_lines := max (max_lines n) (num_lines n + length ls)\<rparr>)"
proof (induction ls arbitrary: n)
  case Nil
  then show ?case by (simp add: max_def)
next
  case (Cons l ls)
  then show ?case
    by (simp add: git2r_diff_count_line_cb_def Let_def max_def)
qed

lemma count_hunk:
  "num_hunks n \<le> max_hunks n \<Longrightarrow>
   count_loop (hunk_events d hp) n =
     Inr (0, n\<lparr>num_hunks := num_hunks n + 1,
               max_hunks := max (max_hunks n) (num_hunks n + 1),
               num_lines := length (snd hp),
               max_lines := max (max_lines n) (length (snd hp))\<rparr>)"
  by (simp add: hunk_events_def git2r_diff_count_hunk_cb_def Let_def count_lines max_def)

lemma count_hunks:
  "num_hunks n \<le> max_hunks n \<Longrightarrow>
   \<exists>n'. count_loop (concat (map (hunk_events d) hps)) n = Inr (0, n') \<and>
     num_files n' = num_files n \<and>
     max_hunks n' = max (max_hunks n) (num_hunks n + length hps) \<and>
     max_lines n' = max (max_lines n) (Max (set (0 # map (\<lambda>hp. length (snd hp)) hps)))"
proof (induction hps arbitrary: n)
  case Nil
  then show ?case by (simp add: max_def)
next
  case (Cons hp hps)
  let ?n1 = "n\<lparr>num_hunks := num_hunks n + 1,
               max_hunks := max (max_hunks n) (num_hunks n + 1),
               num_lines := length (snd hp),
               max_lines := max (max_lines n) (length (snd hp))\<rparr>"
  have "num_hunks ?n1 \<le> max_hunks ?n1" by simp
  from Cons.IH [OF this] obtain n' where
    n': "count_loop (concat (map (hunk_events d) hps)) ?n1 = Inr (0, n')"
     "num_files n' = num_files ?n1"
     "max_hunks n' = max (max_hunks ?n1) (num_hunks ?n1 + length hps)"
     "max_lines n' = max (max_lines ?n1) (Max (set (0 # map (\<lambda>hp. length (snd hp)) hps)))"
    by blast
  have "count_loop (concat (map (hunk_events d) (hp # hps))) n = Inr (0, n')"
    using n'(1) Cons.prems by (simp add: foreach_loop_append count_hunk)
  moreover have "max_hunks n' = max (max_hunks n) (num_hunks n + length (hp # hps))"
    using n'(3) Cons.prems by simp
  moreover have "max_lines n' =
      max (max_lines n) (Max (set (0 # map (\<lambda>hp. length (snd hp)) (hp # hps))))"
    using n'(4) Max_set_0_append [of "[length (snd hp)]" "map (\<lambda>hp. length (snd hp)) hps"]
    by (simp add: max.assoc)
  ultimately show ?case using n'(2) by simp
qed

lemma count_file:
  "\<exists>n'. count_loop (file_events fp) n = Inr (0, n') \<and>
     num_files n' = num_files n + 1 \<and>
     max_hunks n' = max (max_hunks n) (length (snd fp)) \<and>
     max_lines n' = max (max_lines n) (Max (set (0 # map (\<lambda>hp. length (snd hp)) (snd fp))))"
proof -
  let ?n1 = "n\<lparr>num_files := num_files n + 1, num_hunks := 0, num_lines := 0\<rparr>"
  have "num_hunks ?n1 \<le> max_hunks ?n1" by simp
  from count_hunks [OF this, of "fst fp" "snd fp"] obtain n' where
    n': "count_loop (concat (map (hunk_events (fst fp)) (snd fp))) ?n1 = Inr (0, n')"
     "num_files n' = num_files ?n1"
     "max_hunks n' = max (max_hunks ?n1) (num_hunks ?n1 + length (snd fp))"
     "max_lines n' = max (max_lines ?n1) (Max (set (0 # map (\<lambda>hp. length (snd hp)) (snd fp))))"
    by blast
  have "count_loop (file_events fp) n = Inr (0, n')"
    using n'(1) by (simp add: file_events_def git2r_diff_count_file_cb_def)
  then show ?thesis using n'(2-4) by simp
qed

lemma count_files:
  "\<exists>n'. count_loop (diff_events fps) n = Inr (0, n') \<and>
     num_files n' = num_files n + length fps \<and>
     max_hunks n' = max (max_hunks n) (Max (set (0 # map (\<lambda>fp. length (snd fp)) fps))) \<and>
     max_lines n' = max (max_lines n)
        (Max (set (0 # map (\<lambda>hp. length (snd hp)) (concat (map snd fps)))))"
proof (induction fps arbitrary: n)
  case Nil
  show ?case by (simp add: diff_events_def)
next
  case (Cons fp fps)
  from count_file [of fp n] obtain n1 where
    n1: "count_loop (file_events fp) n = Inr (0, n1)"
     "num_files n1 = num_files n + 1"
     "max_hunks n1 = max (max_hunks n) (length (snd fp))"
     "max_lines n1 = max (max_lines n) (Max (set (0 # map (\<lambda>hp. length (snd hp)) (snd fp))))"
    by blast
  from Cons.IH [of n1] obtain n' where
    n': "count_loop (diff_events fps) n1 = Inr (0, n')"
     "num_files n' = num_files n1 + length fps"
     "max_hunks n' = max (max_hunks n1) (Max (set (0 # map (\<lambda>fp. length (snd fp)) fps)))"
     "max_lines n' = max (max_lines n1)
        (Max (set (0 # map (\<lambda>hp. length (snd hp)) (concat (map snd fps)))))"
    by blast
  have "count_loop (diff_events (fp # fps)) n = Inr (0, n')"
    using n1(1) n'(1) by (simp add: diff_events_def foreach_loop_append)
  moreover have "num_files n' = num_files n + length (fp # fps)"
    using n1(2) n'(2) by simp
  moreover have "max_hunks n' =
      max (max_hunks n) (Max (set (0 # map (\<lambda>fp. length (snd fp)) (fp # fps))))"
    using n1(3) n'(3) Max_set_0_append [of "[length (snd fp)]" "map (\<lambda>fp. length (snd fp)) fps"]
    by (simp add: max.assoc)
  moreover have "max_lines n' = max (max_lines n)
        (Max (set (0 # map (\<lambda>hp. length (snd hp)) (concat (map snd (fp # fps))))))"
    using n1(4) n'(4) Max_set_0_append [of "map (\<lambda>hp. length (snd hp)) (snd fp)"
         "map (\<lambda>hp. length (snd hp)) (concat (map snd fps))"]
    by (simp add: max.assoc del: Max_insert set_simps set_append set_map set_concat)
  ultimately show ?case by blast
qed

lemma count_run:
  "broken diff = None \<Longrightarrow>
   git2r_diff_count diff out =
     Inr (0, (Some (file_count diff), Some (largest_hunk_count diff), Some (largest_line_count diff)))"
  using count_files [of "patches diff" "\<lparr>num_files = 0, max_hunks = 0, max_lines = 0, num_hunks = 0, num_lines = 0\<rparr>"]
  by (auto simp add: git2r_diff_count_def git_diff_foreach_def file_count_def
      largest_hunk_count_def largest_line_count_def simp del: Max_insert set_simps)

text \<open>
  Claim C1. For a diff whose traversal succeeds, \<open>git2r_diff_count\<close> returns 0 and
  writes the number of files of the diff, the number of hunks of the file with most
  hunks, and the number of lines of the hunk with most lines (0 where there is none),
  whatever the three output locations held before.
\<close>

theorem count_exact:
  "broken diff = None \<Longrightarrow>
   git2r_diff_count diff out =
     Inr (0, (Some (file_count diff), Some (largest_hunk_count diff), Some (largest_line_count diff)))"
  by (rule count_run)

theorem count_exact_witness:
  "broken example_diff = None \<and>
   git2r_diff_count example_diff (None, None, None) = Inr (0, (Some 2, Some 2, Some 2))"
  using count_exact [of example_diff "(None, None, None)"]
  by (simp add: example_diff_def file_count_def largest_hunk_count_def largest_line_count_def)

section \<open>Correctness of the Materializing Pass\<close>

subsection \<open>The operations on the store\<close>


lemma SET_SLOT_ok:
  "a < length h \<Longrightarrow> h ! a = S4SXP cls sl \<Longrightarrow>
   SET_SLOT (Ref a) name v h = Inr (h[a := S4SXP cls (AList.update name v sl)])"
  by simp

lemma SET_VECTOR_ELT_ok:
  "a < length h \<Longrightarrow> h ! a = VECSXP xs \<Longrightarrow> i < length xs \<Longrightarrow>
   SET_VECTOR_ELT (Ref a) i v h = Inr (h[a := VECSXP (xs[i := v])])"
  by simp

lemma VECTOR_ELT_ok:
  "a < length h \<Longrightarrow> h ! a = VECSXP xs \<Longrightarrow> i < length xs \<Longrightarrow>
   VECTOR_ELT (Ref a) i h = Inr (xs ! i)"
  by simp

lemma set_int_slot_ok:
  "a < length h \<Longrightarrow> h ! a = S4SXP cls sl \<Longrightarrow>
   set_int_slot (Ref a) name i h =
     Inr ((h @ [INTSXP [i]])[a := S4SXP cls (AList.update name (Ref (length h)) sl)])"
  by (simp add: set_int_slot_def Rf_ScalarInteger_def alloc_def nth_append)

lemma set_str_slot_ok:
  "a < length h \<Longrightarrow> h ! a = S4SXP cls sl \<Longrightarrow>
   set_str_slot (Ref a) name s h =
     Inr ((h @ [STRSXP [c_str s]])[a := S4SXP cls (AList.update name (Ref (length h)) sl)])"
  by (simp add: set_str_slot_def Rf_mkString_def alloc_def nth_append)

lemma copy_elts_ok:
  "d < length h \<Longrightarrow> s < length h \<Longrightarrow> d \<noteq> s \<Longrightarrow> h ! d = VECSXP dv \<Longrightarrow> h ! s = VECSXP sv \<Longrightarrow>
   len \<le> length dv \<Longrightarrow> len \<le> length sv \<Longrightarrow> i \<le> len \<Longrightarrow>
   copy_elts (Ref d) (Ref s) i len h =
     Inr (h[d := VECSXP (take i dv @ drop i (take len sv) @ drop len dv)])"
proof (induction "len - i" arbitrary: i h dv)
  case 0
  then have "i = len" by simp
  with 0 show ?case
    by (subst copy_elts.simps) (simp add: list_update_same_conv [THEN iffD2])
next
  case (Suc n)
  then have i: "i < len" by simp
  let ?dv = "dv[i := sv ! i]"
  let ?h = "h[d := VECSXP ?dv]"
  have "copy_elts (Ref d) (Ref s) (i + 1) len ?h =
     Inr (?h[d := VECSXP (take (i + 1) ?dv @ drop (i + 1) (take len sv) @ drop len ?dv)])"
    using Suc.prems i Suc.hyps(2) by (intro Suc.hyps(1)) auto
  then have IH: "copy_elts (Ref d) (Ref s) (Suc i) len ?h =
     Inr (?h[d := VECSXP (take (Suc i) ?dv @ drop (Suc i) (take len sv) @ drop len ?dv)])"
    by simp
  have t: "take (Suc i) ?dv = take i dv @ [sv ! i]"
    using i Suc.prems by (simp add: take_Suc_conv_app_nth)
  have dr: "drop i (take len sv) = sv ! i # drop (Suc i) (take len sv)"
    using i Suc.prems by (simp add: Cons_nth_drop_Suc [symmetric])
  have dl: "drop len ?dv = drop len dv" using i by simp
  show ?case
    using i Suc.prems
    by (subst copy_elts.simps) (simp add: bind_f_def IH t dr dl del: copy_elts.simps)
qed

lemma copy_elts_fresh:
  "d < length h \<Longrightarrow> s < length h \<Longrightarrow> d \<noteq> s \<Longrightarrow> h ! d = VECSXP dv \<Longrightarrow> h ! s = VECSXP sv \<Longrightarrow>
   length dv = len \<Longrightarrow> len \<le> length sv \<Longrightarrow>
   copy_elts (Ref d) (Ref s) 0 len h = Inr (h[d := VECSXP (take len sv)])"
  using copy_elts_ok [of d h s dv sv len 0] by simp

lemma takeWhile_stop: "\<not> P y \<Longrightarrow> takeWhile P (xs @ y # ys) = takeWhile P xs"
  by (induction xs) auto

lemma copy_content_ok:
  assumes "sizeof_ptr < short_buffer_size" "length sb = short_buffer_size"
  shows "\<exists>b. copy_content sizeof_ptr sb line = Inr (content_len line > sizeof_ptr, b) \<and>
          c_str b = c_str (content line) \<and>
          length (if content_len line > sizeof_ptr then sb else b) = short_buffer_size"
proof -
  let ?n = "length (content line)"
  show ?thesis
  proof (cases "?n > sizeof_ptr")
    case True
    have "drop ?n (replicate (Suc ?n) (CHR 0x00)) = [CHR 0x00]"
      by (simp only: drop_replicate) simp
    then have "(content line @ drop ?n (replicate (?n + 1) (CHR 0x00)))[?n := CHR 0x00] =
        content line @ [CHR 0x00]"
      by (simp add: list_update_append del: replicate_Suc drop_replicate)
    with True show ?thesis
      using assms takeWhile_stop [of "\<lambda>c. c \<noteq> CHR 0x00" "CHR 0x00" "content line" "[]"]
      by (simp add: copy_content_def content_len_def Let_def memcpy_buf_def store_byte_def
          bind_f_def c_str_def del: replicate_Suc drop_replicate)
  next
    case False
    then have "(content line @ drop ?n sb)[?n := CHR 0x00] = content line @ CHR 0x00 # drop (Suc ?n) sb"
      using assms by (simp add: list_update_append Cons_nth_drop_Suc [symmetric] upd_conv_take_nth_drop)
    then show ?thesis
      using False assms takeWhile_stop [of "\<lambda>c. c \<noteq> CHR 0x00" "CHR 0x00" "content line" "drop (Suc ?n) sb"]
      by (simp add: copy_content_def content_len_def Let_def memcpy_buf_def store_byte_def
          bind_f_def c_str_def)
  qed
qed

subsection \<open>What the store holds for a line, a hunk and a file\<close>

text \<open>
  \<open>line_ok h lo hi v l\<close>: the value \<open>v\<close> is a line object for the line \<open>l\<close>, and every
  address of it lies in \<open>[lo, hi)\<close>; likewise for hunks with their lines and files
  with their hunks. \<open>frame lo hi h h'\<close>: the stores \<open>h\<close> and \<open>h'\<close> agree on \<open>[lo, hi)\<close>.
\<close>

definition frame :: "nat \<Rightarrow> nat \<Rightarrow> heap \<Rightarrow> heap \<Rightarrow> bool" where
  "frame lo hi h h' = (\<forall>a. lo \<le> a \<and> a < hi \<longrightarrow> h' ! a = h ! a)"

definition int_at :: "heap \<Rightarrow> nat \<Rightarrow> nat \<Rightarrow> sexp option \<Rightarrow> int \<Rightarrow> bool" where
  "int_at h lo hi v i = (\<exists>a. v = Some (Ref a) \<and> lo \<le> a \<and> a < hi \<and> h ! a = INTSXP [i])"

definition str_at :: "heap \<Rightarrow> nat \<Rightarrow> nat \<Rightarrow> sexp option \<Rightarrow> string \<Rightarrow> bool" where
  "str_at h lo hi v s = (\<exists>a. v = Some (Ref a) \<and> lo \<le> a \<and> a < hi \<and> h ! a = STRSXP [c_str s])"

definition line_ok :: "heap \<Rightarrow> nat \<Rightarrow> nat \<Rightarrow> sexp \<Rightarrow> git_diff_line \<Rightarrow> bool" where
  "line_ok h lo hi v l =
     (\<exists>a sl. v = Ref a \<and> lo \<le> a \<and> a < hi \<and> h ! a = S4SXP ''git_diff_line'' sl \<and>
        int_at h lo hi (map_of sl ''origin'') (origin l) \<and>
        int_at h lo hi (map_of sl ''old_lineno'') (old_lineno l) \<and>
        int_at h lo hi (map_of sl ''new_lineno'') (new_lineno l) \<and>
        int_at h lo hi (map_of sl ''num_lines'') (line_num_lines l) \<and>
        str_at h lo hi (map_of sl ''content'') (content l))"

definition hunk_fields :: "heap \<Rightarrow> nat \<Rightarrow> nat \<Rightarrow> (string \<times> sexp) list \<Rightarrow> git_diff_hunk \<Rightarrow> bool" where
  "hunk_fields h lo hi sl k =
     (int_at h lo hi (map_of sl ''old_start'') (old_start k) \<and>
      int_at h lo hi (map_of sl ''old_lines'') (old_lines k) \<and>
      int_at h lo hi (map_of sl ''new_start'') (new_start k) \<and>
      int_at h lo hi (map_of sl ''new_lines'') (new_lines k) \<and>
      str_at h lo hi (map_of sl ''header'') (header k))"

definition hunk_ok :: "heap \<Rightarrow> nat \<Rightarrow> nat \<Rightarrow> sexp \<Rightarrow> hunk_patch \<Rightarrow> bool" where
  "hunk_ok h lo hi v hp =
     (\<exists>a sl la lv. v = Ref a \<and> lo \<le> a \<and> a < hi \<and> h ! a = S4SXP ''git_diff_hunk'' sl \<and>
        hunk_fields h lo hi sl (fst hp) \<and>
        map_of sl ''lines'' = Some (Ref la) \<and> lo \<le> la \<and> la < hi \<and> h ! la = VECSXP lv \<and>
        list_all2 (line_ok h lo hi) lv (snd hp))"

definition file_fields :: "heap \<Rightarrow> nat \<Rightarrow> nat \<Rightarrow> (string \<times> sexp) list \<Rightarrow> git_diff_delta \<Rightarrow> bool" where
  "file_fields h lo hi sl d =
     (str_at h lo hi (map_of sl ''old_file'') (old_file_path d) \<and>
      str_at h lo hi (map_of sl ''new_file'') (new_file_path d))"

definition file_ok :: "heap \<Rightarrow> nat \<Rightarrow> nat \<Rightarrow> sexp \<Rightarrow> file_patch \<Rightarrow> bool" where
  "file_ok h lo hi v fp =
     (\<exists>a sl ha hv. v = Ref a \<and> lo \<le> a \<and> a < hi \<and> h ! a = S4SXP ''git_diff_file'' sl \<and>
        file_fields h lo hi sl (fst fp) \<and>
        map_of sl ''hunks'' = Some (Ref ha) \<and> lo \<le> ha \<and> ha < hi \<and> h ! ha = VECSXP hv \<and>
        list_all2 (hunk_ok h lo hi) hv (snd fp))"

lemma int_at_transfer:
  "int_at h lo hi v i \<Longrightarrow> frame lo hi h h' \<Longrightarrow> lo' \<le> lo \<Longrightarrow> hi \<le> hi' \<Longrightarrow> int_at h' lo' hi' v i"
  unfolding int_at_def frame_def by force

lemma str_at_transfer:
  "str_at h lo hi v s \<Longrightarrow> frame lo hi h h' \<Longrightarrow> lo' \<le> lo \<Longrightarrow> hi \<le> hi' \<Longrightarrow> str_at h' lo' hi' v s"
  unfolding str_at_def frame_def by force

lemma line_ok_transfer:
  assumes "line_ok h lo hi v l" "frame lo hi h h'" "lo' \<le> lo" "hi \<le> hi'"
  shows "line_ok h' lo' hi' v l"
proof -
  from assms(1) obtain a sl where a: "v = Ref a" "lo \<le> a" "a < hi" "h ! a = S4SXP ''git_diff_line'' sl"
    and f: "int_at h lo hi (map_of sl ''origin'') (origin l)"
        "int_at h lo hi (map_of sl ''old_lineno'') (old_lineno l)"
        "int_at h lo hi (map_of sl ''new_lineno'') (new_lineno l)"
        "int_at h lo hi (map_of sl ''num_lines'') (line_num_lines l)"
    and g: "str_at h lo hi (map_of sl ''content'') (content l)"
    unfolding line_ok_def by blast
  have "h' ! a = S4SXP ''git_diff_line'' sl" using a assms(2) by (simp add: frame_def)
  then show ?thesis
    unfolding line_ok_def
    using a assms(3,4) f [THEN int_at_transfer [OF _ assms(2,3,4)]]
      str_at_transfer [OF g assms(2,3,4)]
    by (intro exI [of _ a] exI [of _ sl]) simp
qed


lemma hunk_fields_transfer:
  "hunk_fields h lo hi sl k \<Longrightarrow> frame lo hi h h' \<Longrightarrow> lo' \<le> lo \<Longrightarrow> hi \<le> hi' \<Longrightarrow>
   hunk_fields h' lo' hi' sl k"
  unfolding hunk_fields_def by (blast intro: int_at_transfer str_at_transfer)

lemma file_fields_transfer:
  "file_fields h lo hi sl d \<Longrightarrow> frame lo hi h h' \<Longrightarrow> lo' \<le> lo \<Longrightarrow> hi \<le> hi' \<Longrightarrow>
   file_fields h' lo' hi' sl d"
  unfolding file_fields_def by (blast intro: str_at_transfer)

lemma lines_ok_transfer:
  "list_all2 (line_ok h lo hi) lv ls \<Longrightarrow> frame lo hi h h' \<Longrightarrow> lo' \<le> lo \<Longrightarrow> hi \<le> hi' \<Longrightarrow>
   list_all2 (line_ok h' lo' hi') lv ls"
  by (erule list_all2_mono) (rule line_ok_transfer)

lemma hunk_ok_transfer:
  assumes "hunk_ok h lo hi v hp" "frame lo hi h h'" "lo' \<le> lo" "hi \<le> hi'"
  shows "hunk_ok h' lo' hi' v hp"
proof -
  from assms(1) obtain a sl la lv where
    a: "v = Ref a" "lo \<le> a" "a < hi" "h ! a = S4SXP ''git_diff_hunk'' sl"
    and f: "hunk_fields h lo hi sl (fst hp)"
    and l: "map_of sl ''lines'' = Some (Ref la)" "lo \<le> la" "la < hi" "h ! la = VECSXP lv"
    and ls: "list_all2 (line_ok h lo hi) lv (snd hp)"
    unfolding hunk_ok_def by blast
  have "h' ! a = S4SXP ''git_diff_hunk'' sl" "h' ! la = VECSXP lv"
    using a l assms(2) by (simp_all add: frame_def)
  then show ?thesis
    unfolding hunk_ok_def
    using a l assms(3,4) hunk_fields_transfer [OF f assms(2,3,4)]
      lines_ok_transfer [OF ls assms(2,3,4)]
    by (intro exI [of _ a] exI [of _ sl] exI [of _ la] exI [of _ lv]) simp
qed

lemma hunks_ok_transfer:
  "list_all2 (hunk_ok h lo hi) hv hps \<Longrightarrow> frame lo hi h h' \<Longrightarrow> lo' \<le> lo \<Longrightarrow> hi \<le> hi' \<Longrightarrow>
   list_all2 (hunk_ok h' lo' hi') hv hps"
  by (erule list_all2_mono) (rule hunk_ok_transfer)

lemma file_ok_transfer:
  assumes "file_ok h lo hi v fp" "frame lo hi h h'" "lo' \<le> lo" "hi \<le> hi'"
  shows "file_ok h' lo' hi' v fp"
proof -
  from assms(1) obtain a sl ha hv where
    a: "v = Ref a" "lo \<le> a" "a < hi" "h ! a = S4SXP ''git_diff_file'' sl"
    and f: "file_fields h lo hi sl (fst fp)"
    and l: "map_of sl ''hunks'' = Some (Ref ha)" "lo \<le> ha" "ha < hi" "h ! ha = VECSXP hv"
    and ls: "list_all2 (hunk_ok h lo hi) hv (snd fp)"
    unfolding file_ok_def by blast
  have "h' ! a = S4SXP ''git_diff_file'' sl" "h' ! ha = VECSXP hv"
    using a l assms(2) by (simp_all add: frame_def)
  then show ?thesis
    unfolding file_ok_def
    using a l assms(3,4) file_fields_transfer [OF f assms(2,3,4)]
      hunks_ok_transfer [OF ls assms(2,3,4)]
    by (intro exI [of _ a] exI [of _ sl] exI [of _ ha] exI [of _ hv]) simp
qed

lemma files_ok_transfer:
  "list_all2 (file_ok h lo hi) rv t \<Longrightarrow> frame lo hi h h' \<Longrightarrow> lo' \<le> lo \<Longrightarrow> hi \<le> hi' \<Longrightarrow>
   list_all2 (file_ok h' lo' hi') rv t"
  by (erule list_all2_mono) (rule file_ok_transfer)

lemma frame_refl: "frame lo hi h h"
  by (simp add: frame_def)

lemma frame_trans: "frame lo hi h h' \<Longrightarrow> frame lo hi h' h'' \<Longrightarrow> frame lo hi h h''"
  by (simp add: frame_def)

lemma frame_append: "hi \<le> length h \<Longrightarrow> frame lo hi h (h @ xs)"
  by (simp add: frame_def nth_append)

lemma frame_update: "a < lo \<or> hi \<le> a \<Longrightarrow> frame lo hi h (h[a := x])"
  by (auto simp add: frame_def)

lemma frame_sub: "frame lo hi h h' \<Longrightarrow> lo \<le> lo' \<Longrightarrow> hi' \<le> hi \<Longrightarrow> frame lo' hi' h h'"
  by (simp add: frame_def)

definition is_vec :: "nat \<Rightarrow> robj \<Rightarrow> bool" where
  "is_vec n obj = (\<exists>xs. obj = VECSXP xs \<and> length xs = n)"

fun vec_of :: "robj \<Rightarrow> sexp list" where
  "vec_of (VECSXP xs) = xs"
| "vec_of (S4SXP cls sl) = []"
| "vec_of (STRSXP ss) = []"
| "vec_of (INTSXP is) = []"

definition base_ok :: "nat \<Rightarrow> heap \<Rightarrow> nat \<Rightarrow> nat \<Rightarrow> nat \<Rightarrow> mstate \<Rightarrow> bool" where
  "base_ok ra low N H L s =
     (case s of (p, h, sb) \<Rightarrow>
        result p = Ref ra \<and> hunk_tmp p = Ref (Suc ra) \<and> line_tmp p = Ref (Suc (Suc ra)) \<and>
        ra + 3 \<le> length h \<and> is_vec N (h ! ra) \<and> is_vec H (h ! (Suc ra)) \<and>
        is_vec L (h ! (Suc (Suc ra))) \<and> length sb = short_buffer_size \<and>
        take ra h = low)"

definition file_open :: "nat \<Rightarrow> nat \<Rightarrow> file_patch list \<Rightarrow> git_diff_delta \<Rightarrow> nat \<Rightarrow> nat \<Rightarrow>
    git2r_diff_payload \<Rightarrow> heap \<Rightarrow> bool" where
  "file_open ra N t d fa hi p h =
     (file_ptr p = Suc (length t) \<and> length t < N \<and> vec_of (h ! ra) ! length t = Ref fa \<and>
      ra + 3 \<le> fa \<and> fa < hi \<and>
      (\<exists>fsl. h ! fa = S4SXP ''git_diff_file'' fsl \<and> file_fields h (Suc fa) hi fsl d \<and>
             map_of fsl ''hunks'' = None) \<and>
      list_all2 (file_ok h (ra + 3) fa) (take (length t) (vec_of (h ! ra))) t)"

definition all_flushed :: "nat \<Rightarrow> heap \<Rightarrow> nat \<Rightarrow> nat \<Rightarrow> nat \<Rightarrow> file_patch list \<Rightarrow> mstate \<Rightarrow> bool" where
  "all_flushed ra low N H L t s =
     (case s of (p, h, sb) \<Rightarrow>
        base_ok ra low N H L s \<and> file_ptr p = length t \<and> length t \<le> N \<and>
        list_all2 (file_ok h (ra + 3) (length h)) (take (length t) (vec_of (h ! ra))) t)"

definition hunks_staged :: "nat \<Rightarrow> heap \<Rightarrow> nat \<Rightarrow> nat \<Rightarrow> nat \<Rightarrow> file_patch list \<Rightarrow> git_diff_delta \<Rightarrow>
    hunk_patch list \<Rightarrow> mstate \<Rightarrow> bool" where
  "hunks_staged ra low N H L t d hps s =
     (case s of (p, h, sb) \<Rightarrow>
        base_ok ra low N H L s \<and>
        (\<exists>fa. file_open ra N t d fa (length h) p h \<and>
           hunk_ptr p = length hps \<and> length hps \<le> H \<and>
           list_all2 (hunk_ok h (Suc fa) (length h))
             (take (length hps) (vec_of (h ! (Suc ra)))) hps))"

definition lines_staged :: "nat \<Rightarrow> heap \<Rightarrow> nat \<Rightarrow> nat \<Rightarrow> nat \<Rightarrow> file_patch list \<Rightarrow> git_diff_delta \<Rightarrow>
    hunk_patch list \<Rightarrow> git_diff_hunk \<Rightarrow> git_diff_line list \<Rightarrow> mstate \<Rightarrow> bool" where
  "lines_staged ra low N H L t d hps k ls s =
     (case s of (p, h, sb) \<Rightarrow>
        base_ok ra low N H L s \<and>
        (\<exists>fa ka. file_open ra N t d fa ka p h \<and> ka < length h \<and>
           hunk_ptr p = Suc (length hps) \<and> length hps < H \<and>
           vec_of (h ! (Suc ra)) ! length hps = Ref ka \<and>
           (\<exists>ksl. h ! ka = S4SXP ''git_diff_hunk'' ksl \<and>
                  hunk_fields h (Suc ka) (length h) ksl k) \<and>
           list_all2 (hunk_ok h (Suc fa) ka) (take (length hps) (vec_of (h ! (Suc ra)))) hps \<and>
           line_ptr p = length ls \<and> length ls \<le> L \<and>
           list_all2 (line_ok h (Suc ka) (length h))
             (take (length ls) (vec_of (h ! (Suc (Suc ra))))) ls))"

lemma lines_stagedI:
  "base_ok ra low N H L (p, h, sb) \<Longrightarrow> file_open ra N t d fa ka p h \<Longrightarrow> ka < length h \<Longrightarrow>
   hunk_ptr p = Suc (length hps) \<Longrightarrow> length hps < H \<Longrightarrow>
   vec_of (h ! (Suc ra)) ! length hps = Ref ka \<Longrightarrow> h ! ka = S4SXP ''git_diff_hunk'' ksl \<Longrightarrow>
   hunk_fields h (Suc ka) (length h) ksl k \<Longrightarrow>
   list_all2 (hunk_ok h (Suc fa) ka) (take (length hps) (vec_of (h ! (Suc ra)))) hps \<Longrightarrow>
   line_ptr p = length ls \<Longrightarrow> length ls \<le> L \<Longrightarrow>
   list_all2 (line_ok h (Suc ka) (length h)) (take (length ls) (vec_of (h ! (Suc (Suc ra))))) ls \<Longrightarrow>
   lines_staged ra low N H L t d hps k ls (p, h, sb)"
  unfolding lines_staged_def by blast

lemma lines_stagedE:
  assumes "lines_staged ra low N H L t d hps k ls (p, h, sb)"
  obtains fa ka ksl where
    "base_ok ra low N H L (p, h, sb)" "file_open ra N t d fa ka p h" "ka < length h"
    "hunk_ptr p = Suc (length hps)" "length hps < H"
    "vec_of (h ! (Suc ra)) ! length hps = Ref ka" "h ! ka = S4SXP ''git_diff_hunk'' ksl"
    "hunk_fields h (Suc ka) (length h) ksl k"
    "list_all2 (hunk_ok h (Suc fa) ka) (take (length hps) (vec_of (h ! (Suc ra)))) hps"
    "line_ptr p = length ls" "length ls \<le> L"
    "list_all2 (line_ok h (Suc ka) (length h)) (take (length ls) (vec_of (h ! (Suc (Suc ra))))) ls"
  using assms unfolding lines_staged_def by blast

lemma hunks_stagedI:
  "base_ok ra low N H L (p, h, sb) \<Longrightarrow> file_open ra N t d fa (length h) p h \<Longrightarrow>
   hunk_ptr p = length hps \<Longrightarrow> length hps \<le> H \<Longrightarrow>
   list_all2 (hunk_ok h (Suc fa) (length h)) (take (length hps) (vec_of (h ! (Suc ra)))) hps \<Longrightarrow>
   hunks_staged ra low N H L t d hps (p, h, sb)"
  unfolding hunks_staged_def by blast

lemma hunks_stagedE:
  assumes "hunks_staged ra low N H L t d hps (p, h, sb)"
  obtains fa where
    "base_ok ra low N H L (p, h, sb)" "file_open ra N t d fa (length h) p h"
    "hunk_ptr p = length hps" "length hps \<le> H"
    "list_all2 (hunk_ok h (Suc fa) (length h)) (take (length hps) (vec_of (h ! (Suc ra)))) hps"
  using assms unfolding hunks_staged_def by blast

lemma base_okE:
  assumes "base_ok ra low N H L (p, h, sb)"
  obtains rv hv lv where
    "result p = Ref ra" "hunk_tmp p = Ref (Suc ra)" "line_tmp p = Ref (Suc (Suc ra))"
    "ra + 3 \<le> length h" "h ! ra = VECSXP rv" "length rv = N"
    "h ! (Suc ra) = VECSXP hv" "length hv = H" "h ! (Suc (Suc ra)) = VECSXP lv" "length lv = L"
    "length sb = short_buffer_size" "take ra h = low"
  using assms unfolding base_ok_def is_vec_def by auto

lemma base_ok_keep:
  assumes "base_ok ra low N H L (p, h, sb)"
    "result p' = result p" "hunk_tmp p' = hunk_tmp p" "line_tmp p' = line_tmp p"
    "length h \<le> length h'" "is_vec N (h' ! ra)" "is_vec H (h' ! (Suc ra))"
    "is_vec L (h' ! (Suc (Suc ra)))" "length sb' = short_buffer_size"
    "take ra h' = take ra h"
  shows "base_ok ra low N H L (p', h', sb')"
  using assms unfolding base_ok_def by auto

text \<open>A new line object with its five slots.\<close>

lemma new_line_obj:
  assumes "a = length h" "Suc (Suc ra) < length h" "h ! (Suc (Suc ra)) = VECSXP lv" "n < length lv"
    "sizeof_ptr < short_buffer_size" "length sb = short_buffer_size"
    "line_tmp p = Ref (Suc (Suc ra))" "line_ptr p = n"
  shows "\<exists>h' sb'. git2r_diff_get_line_cb sizeof_ptr d k l (p, h, sb) =
            Inr (0, (p\<lparr>line_ptr := Suc n\<rparr>, h', sb')) \<and>
          length sb' = short_buffer_size \<and> length h \<le> length h' \<and>
          h' ! (Suc (Suc ra)) = VECSXP (lv[n := Ref a]) \<and>
          (\<forall>b. b < length h \<and> b \<noteq> Suc (Suc ra) \<longrightarrow> h' ! b = h ! b) \<and>
          line_ok h' a (length h') (Ref a) l"
proof -
  from copy_content_ok [OF assms(5,6), of l] obtain b where
    b: "copy_content sizeof_ptr sb l = Inr (content_len l > sizeof_ptr, b)"
       "c_str b = c_str (content l)"
       "length (if content_len l > sizeof_ptr then sb else b) = short_buffer_size"
    by blast
  let ?cls = "''git_diff_line''"
  let ?sl = "AList.update ''content'' (Ref (a + 5))
              (AList.update ''num_lines'' (Ref (a + 4))
              (AList.update ''new_lineno'' (Ref (a + 3))
              (AList.update ''old_lineno'' (Ref (a + 2))
              (AList.update ''origin'' (Ref (a + 1)) []))))"
  let ?h' = "(h[Suc (Suc ra) := VECSXP (lv[n := Ref a])]) @
             [S4SXP ?cls ?sl, INTSXP [origin l], INTSXP [old_lineno l], INTSXP [new_lineno l],
              INTSXP [line_num_lines l], STRSXP [c_str (content l)]]"
  have run: "git2r_diff_get_line_cb sizeof_ptr d k l (p, h, sb) =
      Inr (0, (p\<lparr>line_ptr := Suc n\<rparr>, ?h', if content_len l > sizeof_ptr then sb else b))"
    using assms b
    by (simp add: git2r_diff_get_line_cb_def NEW_OBJECT_def alloc_def bind_f_def nth_append
        set_int_slot_def set_str_slot_def Rf_ScalarInteger_def Rf_mkString_def
        list_update_append)
  have ok: "line_ok ?h' a (length ?h') (Ref a) l"
    using assms(1)
    by (simp add: line_ok_def int_at_def str_at_def nth_append update_conv')
  show ?thesis
    using run b(3) ok assms(1,2)
    by (intro exI [of _ ?h'] exI [of _ "if content_len l > sizeof_ptr then sb else b"])
       (simp add: nth_append)
qed

lemma file_open_transfer:
  assumes "file_open ra N t d fa hi p h" "frame (ra + 3) hi h h'" "h' ! ra = h ! ra"
    "file_ptr p' = file_ptr p" "hi \<le> hi'"
  shows "file_open ra N t d fa hi' p' h'"
proof -
  from assms(1) obtain fsl where
    a: "file_ptr p = Suc (length t)" "length t < N" "vec_of (h ! ra) ! length t = Ref fa"
       "ra + 3 \<le> fa" "fa < hi" "h ! fa = S4SXP ''git_diff_file'' fsl"
    and f: "file_fields h (Suc fa) hi fsl d"
    and u: "map_of fsl ''hunks'' = None"
    and fs: "list_all2 (file_ok h (ra + 3) fa) (take (length t) (vec_of (h ! ra))) t"
    unfolding file_open_def by blast
  have 1: "h' ! fa = S4SXP ''git_diff_file'' fsl" using a assms(2) by (simp add: frame_def)
  have 2: "file_fields h' (Suc fa) hi' fsl d"
    using f a assms(2,5) by (intro file_fields_transfer [OF f]) (auto simp: frame_def)
  have 3: "list_all2 (file_ok h' (ra + 3) fa) (take (length t) (vec_of (h ! ra))) t"
    using a assms(2) by (intro files_ok_transfer [OF fs]) (auto simp: frame_def)
  show ?thesis
    unfolding file_open_def using a assms(3,4,5) 1 2 3 u by auto
qed

lemma line_step:
  assumes P: "lines_staged ra low N H L t d hps k ls (p, h, sb)" and n: "length ls < L"
    and sz: "sizeof_ptr < short_buffer_size"
  shows "\<exists>s'. git2r_diff_get_line_cb sizeof_ptr d' k' l (p, h, sb) = Inr (0, s') \<and>
           lines_staged ra low N H L t d hps k (ls @ [l]) s'"
proof -
  from P obtain fa ka ksl where
    base: "base_ok ra low N H L (p, h, sb)"
    and fo: "file_open ra N t d fa ka p h"
    and ka: "ka < length h" "hunk_ptr p = Suc (length hps)" "length hps < H"
        "vec_of (h ! (Suc ra)) ! length hps = Ref ka" "h ! ka = S4SXP ''git_diff_hunk'' ksl"
    and kf: "hunk_fields h (Suc ka) (length h) ksl k"
    and hs: "list_all2 (hunk_ok h (Suc fa) ka) (take (length hps) (vec_of (h ! (Suc ra)))) hps"
    and lp: "line_ptr p = length ls"
    and lo: "list_all2 (line_ok h (Suc ka) (length h)) (take (length ls) (vec_of (h ! (Suc (Suc ra))))) ls"
    by (rule lines_stagedE)
  from base obtain rv hv lv where
    b: "line_tmp p = Ref (Suc (Suc ra))" "ra + 3 \<le> length h" "length sb = short_buffer_size"
    and lv: "h ! (Suc (Suc ra)) = VECSXP lv" "length lv = L"
    by (rule base_okE)
  have fa: "ra + 3 \<le> fa" "fa < ka" using fo by (simp_all add: file_open_def)
  have "Suc (Suc ra) < length h" "length ls < length lv" using b(2) n lv(2) by simp_all
  from new_line_obj [OF refl this(1) lv(1) this(2) sz b(3) b(1) lp, of d' k' l]
  obtain h' sb' where
    run: "git2r_diff_get_line_cb sizeof_ptr d' k' l (p, h, sb) =
            Inr (0, (p\<lparr>line_ptr := Suc (length ls)\<rparr>, h', sb'))"
    and h': "length sb' = short_buffer_size" "length h \<le> length h'"
       "h' ! (Suc (Suc ra)) = VECSXP (lv[length ls := Ref (length h)])"
       "\<And>b. b < length h \<Longrightarrow> b \<noteq> Suc (Suc ra) \<Longrightarrow> h' ! b = h ! b"
    and new: "line_ok h' (length h) (length h') (Ref (length h)) l"
    by auto
  have fr: "\<And>lo hi. ra + 3 \<le> lo \<Longrightarrow> hi \<le> length h \<Longrightarrow> frame lo hi h h'"
    using h'(4) by (simp add: frame_def)
  have same: "h' ! ra = h ! ra" "h' ! (Suc ra) = h ! (Suc ra)" "h' ! ka = h ! ka"
    using b(2) ka(1) fa by (simp_all add: h'(4))
  let ?p = "p\<lparr>line_ptr := Suc (length ls)\<rparr>"
  have lowf: "take ra h' = take ra h"
    using h'(2) b(2) by (intro nth_take_lemma) (simp_all add: h'(4))
  have 1: "base_ok ra low N H L (?p, h', sb')"
    using h' lv base lowf by (intro base_ok_keep [OF base]) (simp_all add: same base_ok_def is_vec_def)
  have 2: "file_open ra N t d fa ka ?p h'"
    using ka(1) by (intro file_open_transfer [OF fo fr]) (simp_all add: same)
  have 3: "hunk_fields h' (Suc ka) (length h') ksl k"
    using fa h'(2) by (intro hunk_fields_transfer [OF kf fr]) simp_all
  have "list_all2 (hunk_ok h' (Suc fa) ka) (take (length hps) (vec_of (h ! (Suc ra)))) hps"
    using fa ka(1) by (intro hunks_ok_transfer [OF hs fr]) simp_all
  then have 4: "list_all2 (hunk_ok h' (Suc fa) ka) (take (length hps) (vec_of (h' ! (Suc ra)))) hps"
    by (simp add: same)
  have "list_all2 (line_ok h' (Suc ka) (length h')) (take (length ls) (vec_of (h ! (Suc (Suc ra))))) ls"
    using fa h'(2) by (intro lines_ok_transfer [OF lo fr]) simp_all
  then have 5: "list_all2 (line_ok h' (Suc ka) (length h')) (take (length ls) lv) ls"
    using lv(1) by simp
  have 6: "line_ok h' (Suc ka) (length h') (Ref (length h)) l"
    using ka(1) by (intro line_ok_transfer [OF new frame_refl]) simp_all
  have 7: "take (Suc (length ls)) (lv[length ls := Ref (length h)]) = take (length ls) lv @ [Ref (length h)]"
    using n lv(2) by (simp add: take_Suc_conv_app_nth)
  have 8: "list_all2 (line_ok h' (Suc ka) (length h'))
      (take (length (ls @ [l])) (vec_of (h' ! (Suc (Suc ra))))) (ls @ [l])"
    using 5 6 7 by (simp add: h'(3) list_all2_appendI)
  have "lines_staged ra low N H L t d hps k (ls @ [l]) (?p, h', sb')"
    using 1 2 3 4 8 ka h'(2) n lp
    by (intro lines_stagedI [where fa = fa and ka = ka and ksl = ksl]) (simp_all add: same)
  with run show ?thesis by blast
qed

lemma all_flushedI:
  "base_ok ra low N H L (p, h, sb) \<Longrightarrow> file_ptr p = length t \<Longrightarrow> length t \<le> N \<Longrightarrow>
   list_all2 (file_ok h (ra + 3) (length h)) (take (length t) (vec_of (h ! ra))) t \<Longrightarrow>
   all_flushed ra low N H L t (p, h, sb)"
  unfolding all_flushed_def by simp

lemma all_flushedE:
  assumes "all_flushed ra low N H L t (p, h, sb)"
  obtains "base_ok ra low N H L (p, h, sb)" "file_ptr p = length t" "length t \<le> N"
    "list_all2 (file_ok h (ra + 3) (length h)) (take (length t) (vec_of (h ! ra))) t"
  using assms unfolding all_flushed_def by simp

lemma file_openE:
  assumes "file_open ra N t d fa hi p h"
  obtains fsl where
    "file_ptr p = Suc (length t)" "length t < N" "vec_of (h ! ra) ! length t = Ref fa"
    "ra + 3 \<le> fa" "fa < hi" "h ! fa = S4SXP ''git_diff_file'' fsl"
    "file_fields h (Suc fa) hi fsl d" "map_of fsl ''hunks'' = None"
    "list_all2 (file_ok h (ra + 3) fa) (take (length t) (vec_of (h ! ra))) t"
  using assms unfolding file_open_def by blast

text \<open>The first block of the hunk callback, with a hunk staged.\<close>

lemma save_lines_step:
  assumes P: "lines_staged ra low N H L t d hps k ls (p, h, sb)"
  shows "\<exists>h'. save_lines p h = Inr h' \<and> hunks_staged ra low N H L t d (hps @ [(k, ls)]) (p, h', sb)"
proof -
  from P obtain fa ka ksl where
    base: "base_ok ra low N H L (p, h, sb)"
    and fo: "file_open ra N t d fa ka p h"
    and ka: "ka < length h" "hunk_ptr p = Suc (length hps)" "length hps < H"
        "vec_of (h ! (Suc ra)) ! length hps = Ref ka" "h ! ka = S4SXP ''git_diff_hunk'' ksl"
    and kf: "hunk_fields h (Suc ka) (length h) ksl k"
    and hs: "list_all2 (hunk_ok h (Suc fa) ka) (take (length hps) (vec_of (h ! (Suc ra)))) hps"
    and lp: "line_ptr p = length ls" "length ls \<le> L"
    and lo: "list_all2 (line_ok h (Suc ka) (length h)) (take (length ls) (vec_of (h ! (Suc (Suc ra))))) ls"
    by (rule lines_stagedE)
  from base obtain rv hv lv where
    b: "hunk_tmp p = Ref (Suc ra)" "line_tmp p = Ref (Suc (Suc ra))" "ra + 3 \<le> length h"
    and hv: "h ! (Suc ra) = VECSXP hv" "length hv = H"
    and lv: "h ! (Suc (Suc ra)) = VECSXP lv" "length lv = L"
    by (rule base_okE)
  have fa: "ra + 3 \<le> fa" "fa < ka" using fo by (simp_all add: file_open_def)
  let ?m = "length h"
  let ?sl = "AList.update ''lines'' (Ref ?m) ksl"
  let ?h2 = "(h @ [VECSXP (replicate (length ls) R_NilValue)])[ka := S4SXP ''git_diff_hunk'' ?sl]"
  let ?h' = "?h2[?m := VECSXP (take (length ls) lv)]"
  have cp: "copy_elts (Ref ?m) (Ref (Suc (Suc ra))) 0 (length ls) ?h2 = Inr ?h'"
    using b(3) ka(1) fa lv lp(2)
    by (intro copy_elts_fresh [where dv = "replicate (length ls) R_NilValue" and sv = lv])
       (simp_all add: nth_append)
  have run: "save_lines p h = Inr ?h'"
    using b ka hv lp(1) fa cp
    by (simp add: save_lines_def Rf_allocVector_def alloc_def bind_f_def nth_append
        del: copy_elts.simps)
  have len: "length ?h' = Suc ?m" by simp
  have fr: "\<And>lo hi. ra + 3 \<le> lo \<Longrightarrow> hi \<le> ka \<or> (Suc ka \<le> lo \<and> hi \<le> ?m) \<Longrightarrow> frame lo hi h ?h'"
    using ka(1) by (auto simp add: frame_def nth_append)
  have same: "?h' ! ra = h ! ra" "?h' ! (Suc ra) = h ! (Suc ra)"
      "?h' ! (Suc (Suc ra)) = h ! (Suc (Suc ra))"
    using b(3) ka(1) fa by (simp_all add: nth_append)
  have lowf: "take ra ?h' = take ra h"
    using fa ka(1) by simp
  have 1: "base_ok ra low N H L (p, ?h', sb)"
    using base lowf
    by (intro base_ok_keep [OF base]) (simp_all only: same len, simp_all add: base_ok_def)
  have 2: "file_open ra N t d fa (length ?h') p ?h'"
  proof (rule file_open_transfer [OF fo fr])
    show "?h' ! ra = h ! ra" by (rule same)
  qed (use ka(1) in simp_all)
  have 3: "hunk_fields ?h' (Suc fa) (length ?h') ksl k"
    using fa by (intro hunk_fields_transfer [OF kf fr]) simp_all
  have "list_all2 (hunk_ok ?h' (Suc fa) (length ?h')) (take (length hps) (vec_of (h ! (Suc ra)))) hps"
    using fa ka(1) by (intro hunks_ok_transfer [OF hs fr]) simp_all
  then have 4: "list_all2 (hunk_ok ?h' (Suc fa) (length ?h')) (take (length hps) hv) hps"
    by (simp add: hv)
  have "list_all2 (line_ok ?h' (Suc fa) (length ?h')) (take (length ls) (vec_of (h ! (Suc (Suc ra))))) ls"
    using fa by (intro lines_ok_transfer [OF lo fr]) simp_all
  then have 5: "list_all2 (line_ok ?h' (Suc fa) (length ?h')) (take (length ls) lv) ls"
    by (simp add: lv)
  have 6: "hunk_fields ?h' (Suc fa) (length ?h') ?sl k"
    using 3 by (simp add: hunk_fields_def update_conv')
  have 7: "hunk_ok ?h' (Suc fa) (length ?h') (Ref ka) (k, ls)"
    unfolding hunk_ok_def
    using 5 6 fa ka(1)
    by (intro exI [of _ ka] exI [of _ ?sl] exI [of _ ?m] exI [of _ "take (length ls) lv"])
       (simp add: update_conv' nth_append)
  have 8: "take (Suc (length hps)) hv = take (length hps) hv @ [Ref ka]"
    using ka(3,4) hv by (simp add: take_Suc_conv_app_nth)
  have 9: "list_all2 (hunk_ok ?h' (Suc fa) (length ?h'))
      (take (length (hps @ [(k, ls)])) (vec_of (?h' ! (Suc ra)))) (hps @ [(k, ls)])"
    using 4 7 8 by (simp only: same hv vec_of.simps length_append list.size) (simp add: list_all2_appendI)
  have "hunks_staged ra low N H L t d (hps @ [(k, ls)]) (p, ?h', sb)"
    using 1 2 9 ka(2,3) by (intro hunks_stagedI [where fa = fa]) simp_all
  with run show ?thesis by blast
qed

text \<open>The second block of the hunk callback.\<close>

lemma push_hunk_step:
  assumes P: "hunks_staged ra low N H L t d hps (p, h, sb)" and n: "length hps < H"
  shows "\<exists>p' h'. push_hunk k p h = Inr (p', h') \<and> lines_staged ra low N H L t d hps k [] (p', h', sb)"
proof -
  from P obtain fa where
    base: "base_ok ra low N H L (p, h, sb)"
    and fo: "file_open ra N t d fa (length h) p h"
    and hp: "hunk_ptr p = length hps"
    and hs: "list_all2 (hunk_ok h (Suc fa) (length h)) (take (length hps) (vec_of (h ! (Suc ra)))) hps"
    by (rule hunks_stagedE)
  from base obtain rv hv lv where
    b: "hunk_tmp p = Ref (Suc ra)" "ra + 3 \<le> length h"
    and hv: "h ! (Suc ra) = VECSXP hv" "length hv = H"
    by (rule base_okE)
  have fa: "ra + 3 \<le> fa" "fa < length h" using fo by (simp_all add: file_open_def)
  let ?ka = "length h"
  let ?sl = "AList.update ''header'' (Ref (?ka + 5))
              (AList.update ''new_lines'' (Ref (?ka + 4))
              (AList.update ''new_start'' (Ref (?ka + 3))
              (AList.update ''old_lines'' (Ref (?ka + 2))
              (AList.update ''old_start'' (Ref (?ka + 1)) []))))"
  let ?h' = "(h[Suc ra := VECSXP (hv[length hps := Ref ?ka])]) @
             [S4SXP ''git_diff_hunk'' ?sl, INTSXP [old_start k], INTSXP [old_lines k],
              INTSXP [new_start k], INTSXP [new_lines k], STRSXP [c_str (header k)]]"
  let ?p = "p\<lparr>hunk_ptr := hunk_ptr p + 1, line_ptr := 0\<rparr>"
  have run: "push_hunk k p h = Inr (?p, ?h')"
    using b hv hp n
    by (simp add: push_hunk_def NEW_OBJECT_def alloc_def bind_f_def nth_append
        set_int_slot_def set_str_slot_def Rf_ScalarInteger_def Rf_mkString_def
        list_update_append)
  have fr: "\<And>lo hi. ra + 3 \<le> lo \<Longrightarrow> hi \<le> ?ka \<Longrightarrow> frame lo hi h ?h'"
    by (auto simp add: frame_def nth_append)
  have same: "?h' ! ra = h ! ra" "?h' ! (Suc ra) = VECSXP (hv[length hps := Ref ?ka])"
      "?h' ! (Suc (Suc ra)) = h ! (Suc (Suc ra))"
    using b(2) by (simp_all add: nth_append)
  have lowf: "take ra ?h' = take ra h"
    using b(2) by simp
  have 1: "base_ok ra low N H L (?p, ?h', sb)"
    using base hv lowf
    by (intro base_ok_keep [OF base]) (simp_all only: same, simp_all add: base_ok_def is_vec_def)
  have 2: "file_open ra N t d fa ?ka ?p ?h'"
  proof (rule file_open_transfer [OF fo fr])
    show "?h' ! ra = h ! ra" by (rule same)
  qed simp_all
  have 3: "hunk_fields ?h' (Suc ?ka) (length ?h') ?sl k"
    by (simp add: hunk_fields_def int_at_def str_at_def nth_append update_conv')
  have "list_all2 (hunk_ok ?h' (Suc fa) ?ka) (take (length hps) (vec_of (h ! (Suc ra)))) hps"
    by (intro hunks_ok_transfer [OF hs fr]) (use fa in simp_all)
  then have 4: "list_all2 (hunk_ok ?h' (Suc fa) ?ka) (take (length hps) (vec_of (?h' ! (Suc ra)))) hps"
    by (simp only: same hv vec_of.simps) simp
  have 5: "vec_of (?h' ! (Suc ra)) ! length hps = Ref ?ka"
    using n hv by (simp only: same vec_of.simps) simp
  have 6: "?h' ! ?ka = S4SXP ''git_diff_hunk'' ?sl"
    by (simp add: nth_append)
  have "lines_staged ra low N H L t d hps k [] (?p, ?h', sb)"
    using 1 2 3 4 5 6 n hp
    by (intro lines_stagedI [where fa = fa and ka = ?ka and ksl = ?sl]) simp_all
  with run show ?thesis by blast
qed

text \<open>The second block of the file callback, with a file entered.\<close>

lemma save_hunks_step:
  assumes P: "hunks_staged ra low N H L t d hps (p, h, sb)"
  shows "\<exists>h'. save_hunks p h = Inr h' \<and> all_flushed ra low N H L (t @ [(d, hps)]) (p, h', sb)"
proof -
  from P obtain fa where
    base: "base_ok ra low N H L (p, h, sb)"
    and fo: "file_open ra N t d fa (length h) p h"
    and hp: "hunk_ptr p = length hps" "length hps \<le> H"
    and hs: "list_all2 (hunk_ok h (Suc fa) (length h)) (take (length hps) (vec_of (h ! (Suc ra)))) hps"
    by (rule hunks_stagedE)
  from base obtain rv hv lv where
    b: "result p = Ref ra" "hunk_tmp p = Ref (Suc ra)" "ra + 3 \<le> length h"
    and rv: "h ! ra = VECSXP rv" "length rv = N"
    and hv: "h ! (Suc ra) = VECSXP hv" "length hv = H"
    by (rule base_okE)
  from fo obtain fsl where
    f: "file_ptr p = Suc (length t)" "length t < N" "vec_of (h ! ra) ! length t = Ref fa"
       "ra + 3 \<le> fa" "fa < length h" "h ! fa = S4SXP ''git_diff_file'' fsl"
    and ff: "file_fields h (Suc fa) (length h) fsl d"
    and fs: "list_all2 (file_ok h (ra + 3) fa) (take (length t) (vec_of (h ! ra))) t"
    by (rule file_openE)
  let ?m = "length h"
  let ?sl = "AList.update ''hunks'' (Ref ?m) fsl"
  let ?h2 = "(h @ [VECSXP (replicate (length hps) R_NilValue)])[fa := S4SXP ''git_diff_file'' ?sl]"
  let ?h' = "?h2[?m := VECSXP (take (length hps) hv)]"
  have cp: "copy_elts (Ref ?m) (Ref (Suc ra)) 0 (length hps) ?h2 = Inr ?h'"
    using b(3) f(4,5) hv hp(2)
    by (intro copy_elts_fresh [where dv = "replicate (length hps) R_NilValue" and sv = hv])
       (simp_all add: nth_append)
  have run: "save_hunks p h = Inr ?h'"
    using b f rv hp(1) cp
    by (simp add: save_hunks_def Rf_allocVector_def alloc_def bind_f_def nth_append
        del: copy_elts.simps)
  have len: "length ?h' = Suc ?m" by simp
  have fr: "\<And>lo hi. ra + 3 \<le> lo \<Longrightarrow> hi \<le> fa \<or> (Suc fa \<le> lo \<and> hi \<le> ?m) \<Longrightarrow> frame lo hi h ?h'"
    using f(5) by (auto simp add: frame_def nth_append)
  have same: "?h' ! ra = h ! ra" "?h' ! (Suc ra) = h ! (Suc ra)"
      "?h' ! (Suc (Suc ra)) = h ! (Suc (Suc ra))"
    using b(3) f(4,5) by (simp_all add: nth_append)
  have lowf: "take ra ?h' = take ra h"
    using f(4,5) by simp
  have 1: "base_ok ra low N H L (p, ?h', sb)"
    using base lowf
    by (intro base_ok_keep [OF base]) (simp_all only: same len, simp_all add: base_ok_def)
  have "list_all2 (file_ok ?h' (ra + 3) (length ?h')) (take (length t) (vec_of (h ! ra))) t"
    by (intro files_ok_transfer [OF fs fr]) (use f in simp_all)
  then have 2: "list_all2 (file_ok ?h' (ra + 3) (length ?h')) (take (length t) rv) t"
    by (simp add: rv)
  have 3: "file_fields ?h' (ra + 3) (length ?h') ?sl d"
  proof -
    have "file_fields ?h' (ra + 3) (length ?h') fsl d"
      by (intro file_fields_transfer [OF ff fr]) (use f in simp_all)
    then show ?thesis by (simp add: file_fields_def update_conv')
  qed
  have "list_all2 (hunk_ok ?h' (ra + 3) (length ?h')) (take (length hps) (vec_of (h ! (Suc ra)))) hps"
    by (intro hunks_ok_transfer [OF hs fr]) (use f in simp_all)
  then have 4: "list_all2 (hunk_ok ?h' (ra + 3) (length ?h')) (take (length hps) hv) hps"
    by (simp add: hv)
  have 5: "file_ok ?h' (ra + 3) (length ?h') (Ref fa) (d, hps)"
    unfolding file_ok_def
    using 3 4 f(4,5) b(3)
    by (intro exI [of _ fa] exI [of _ ?sl] exI [of _ ?m] exI [of _ "take (length hps) hv"])
       (simp add: update_conv' nth_append)
  have 6: "take (Suc (length t)) rv = take (length t) rv @ [Ref fa]"
    using f(2,3) rv by (simp add: take_Suc_conv_app_nth)
  have 7: "list_all2 (file_ok ?h' (ra + 3) (length ?h'))
      (take (length (t @ [(d, hps)])) (vec_of (?h' ! ra))) (t @ [(d, hps)])"
    using 2 5 6 by (simp only: same rv vec_of.simps length_append list.size) (simp add: list_all2_appendI)
  have "all_flushed ra low N H L (t @ [(d, hps)]) (p, ?h', sb)"
    using 1 7 f(1,2) by (intro all_flushedI) simp_all
  with run show ?thesis by blast
qed

text \<open>The third block of the file callback.\<close>

lemma push_file_step:
  assumes P: "all_flushed ra low N H L t (p, h, sb)" and n: "length t < N"
  shows "\<exists>p' h'. push_file d p h = Inr (p', h') \<and> hunks_staged ra low N H L t d [] (p', h', sb) \<and>
           line_ptr p' = 0"
proof -
  from P have base: "base_ok ra low N H L (p, h, sb)"
    and fp: "file_ptr p = length t"
    and fs: "list_all2 (file_ok h (ra + 3) (length h)) (take (length t) (vec_of (h ! ra))) t"
    by (auto elim: all_flushedE)
  from base obtain rv hv lv where
    b: "result p = Ref ra" "ra + 3 \<le> length h"
    and rv: "h ! ra = VECSXP rv" "length rv = N"
    by (rule base_okE)
  let ?fa = "length h"
  let ?sl = "AList.update ''new_file'' (Ref (?fa + 2))
              (AList.update ''old_file'' (Ref (?fa + 1)) [])"
  let ?h' = "(h[ra := VECSXP (rv[length t := Ref ?fa])]) @
             [S4SXP ''git_diff_file'' ?sl, STRSXP [c_str (old_file_path d)],
              STRSXP [c_str (new_file_path d)]]"
  let ?p = "p\<lparr>file_ptr := file_ptr p + 1, hunk_ptr := 0, line_ptr := 0\<rparr>"
  have run: "push_file d p h = Inr (?p, ?h')"
    using b rv fp n
    by (simp add: push_file_def NEW_OBJECT_def alloc_def bind_f_def nth_append
        set_str_slot_def Rf_mkString_def list_update_append)
  have fr: "\<And>lo hi. ra + 3 \<le> lo \<Longrightarrow> hi \<le> ?fa \<Longrightarrow> frame lo hi h ?h'"
    by (auto simp add: frame_def nth_append)
  have same: "?h' ! ra = VECSXP (rv[length t := Ref ?fa])" "?h' ! (Suc ra) = h ! (Suc ra)"
      "?h' ! (Suc (Suc ra)) = h ! (Suc (Suc ra))"
    using b(2) by (simp_all add: nth_append)
  have lowf: "take ra ?h' = take ra h"
    using b(2) by simp
  have 1: "base_ok ra low N H L (?p, ?h', sb)"
    using base rv lowf
    by (intro base_ok_keep [OF base]) (simp_all only: same, simp_all add: base_ok_def is_vec_def)
  have "list_all2 (file_ok ?h' (ra + 3) ?fa) (take (length t) (vec_of (h ! ra))) t"
    by (intro files_ok_transfer [OF fs fr]) simp_all
  then have 2: "list_all2 (file_ok ?h' (ra + 3) ?fa) (take (length t) (vec_of (?h' ! ra))) t"
    by (simp only: same rv vec_of.simps) simp
  have 3: "file_fields ?h' (Suc ?fa) (length ?h') ?sl d"
    by (simp add: file_fields_def str_at_def nth_append update_conv')
  have 4: "vec_of (?h' ! ra) ! length t = Ref ?fa"
    using n rv by (simp only: same vec_of.simps) simp
  have 5: "?h' ! ?fa = S4SXP ''git_diff_file'' ?sl"
    by (simp add: nth_append)
  have 6: "file_open ra N t d ?fa (length ?h') ?p ?h'"
    unfolding file_open_def using 2 3 4 5 fp n b(2) by simp
  have "hunks_staged ra low N H L t d [] (?p, ?h', sb)"
    using 1 6 by (intro hunks_stagedI [where fa = ?fa]) simp_all
  moreover have "line_ptr ?p = 0" by simp
  ultimately show ?thesis using run by blast
qed

subsection \<open>The callbacks along a traversal\<close>

text \<open>
  \<open>file_seen \<dots> t d hps\<close>: the files \<open>t\<close> are complete in the result, the file \<open>d\<close> has been
  entered and the hunks \<open>hps\<close> of it have been seen, the last of them still without its
  \<open>lines\<close> slot. \<open>files_seen \<dots> t\<close>: the files \<open>t\<close> have been seen, the last of them still
  without its \<open>hunks\<close> slot.
\<close>

definition file_seen :: "nat \<Rightarrow> heap \<Rightarrow> nat \<Rightarrow> nat \<Rightarrow> nat \<Rightarrow> file_patch list \<Rightarrow> git_diff_delta \<Rightarrow>
    hunk_patch list \<Rightarrow> mstate \<Rightarrow> bool" where
  "file_seen ra low N H L t d hps s =
     ((hps = [] \<and> hunks_staged ra low N H L t d [] s \<and> line_ptr (fst s) = 0) \<or>
      (\<exists>hps0 k ls. hps = hps0 @ [(k, ls)] \<and> lines_staged ra low N H L t d hps0 k ls s))"

definition files_seen :: "nat \<Rightarrow> heap \<Rightarrow> nat \<Rightarrow> nat \<Rightarrow> nat \<Rightarrow> file_patch list \<Rightarrow> mstate \<Rightarrow> bool" where
  "files_seen ra low N H L t s =
     ((t = [] \<and> all_flushed ra low N H L [] s \<and> hunk_ptr (fst s) = 0 \<and>
       line_ptr (fst s) = 0) \<or>
      (\<exists>t0 d hps. t = t0 @ [(d, hps)] \<and> file_seen ra low N H L t0 d hps s))"

abbreviation mat_loop :: "nat \<Rightarrow> diff_event list \<Rightarrow> mstate \<Rightarrow> fault + int \<times> mstate" where
  "mat_loop sizeof_ptr \<equiv>
     foreach_loop git2r_diff_get_file_cb git2r_diff_get_hunk_cb (git2r_diff_get_line_cb sizeof_ptr)"

lemma flush_lines:
  assumes "file_seen ra low N H L t d hps (p, h, sb)"
  shows "\<exists>h'. save_lines p h = Inr h' \<and> hunks_staged ra low N H L t d hps (p, h', sb)"
  using assms unfolding file_seen_def
proof (elim disjE conjE exE)
  assume e: "hps = []" and P: "hunks_staged ra low N H L t d [] (p, h, sb)"
  from P have "hunk_ptr p = 0" by (auto elim: hunks_stagedE)
  then have "save_lines p h = Inr h" by (simp add: save_lines_def)
  with e P show ?thesis by blast
next
  fix hps0 k ls
  assume "hps = hps0 @ [(k, ls)]" "lines_staged ra low N H L t d hps0 k ls (p, h, sb)"
  then show ?thesis using save_lines_step by blast
qed

lemma hunk_cb_none:
  assumes "file_seen ra low N H L t d hps (p, h, sb)"
  shows "\<exists>h'. git2r_diff_get_hunk_cb x None (p, h, sb) = Inr (0, (p, h', sb)) \<and>
           hunks_staged ra low N H L t d hps (p, h', sb)"
  using flush_lines [OF assms] by (auto simp add: git2r_diff_get_hunk_cb_def bind_f_def)

lemma hunk_cb_some:
  assumes "file_seen ra low N H L t d hps (p, h, sb)" "length hps < H"
  shows "\<exists>s'. git2r_diff_get_hunk_cb x (Some k) (p, h, sb) = Inr (0, s') \<and>
           lines_staged ra low N H L t d hps k [] s'"
proof -
  from flush_lines [OF assms(1)] obtain h1 where
    1: "save_lines p h = Inr h1" "hunks_staged ra low N H L t d hps (p, h1, sb)"
    by blast
  from push_hunk_step [OF 1(2) assms(2), of k] obtain p' h' where
    2: "push_hunk k p h1 = Inr (p', h')" "lines_staged ra low N H L t d hps k [] (p', h', sb)"
    by blast
  show ?thesis using 1(1) 2 by (auto simp add: git2r_diff_get_hunk_cb_def bind_f_def)
qed

lemma flush_all:
  assumes "files_seen ra low N H L t (p, h, sb)"
  shows "\<exists>h1 h2. git2r_diff_get_hunk_cb x None (p, h, sb) = Inr (0, (p, h1, sb)) \<and>
           save_hunks p h1 = Inr h2 \<and> all_flushed ra low N H L t (p, h2, sb)"
  using assms unfolding files_seen_def
proof (elim disjE conjE exE)
  assume e: "t = []" and P: "all_flushed ra low N H L [] (p, h, sb)" and z: "hunk_ptr (fst (p, h, sb)) = 0"
  from P have "file_ptr p = 0" by (auto elim: all_flushedE)
  then have "save_hunks p h = Inr h" by (simp add: save_hunks_def)
  moreover have "git2r_diff_get_hunk_cb x None (p, h, sb) = Inr (0, (p, h, sb))"
    using z by (simp add: git2r_diff_get_hunk_cb_def save_lines_def bind_f_def)
  ultimately show ?thesis using e P by blast
next
  fix t0 d hps
  assume e: "t = t0 @ [(d, hps)]" and Q: "file_seen ra low N H L t0 d hps (p, h, sb)"
  from hunk_cb_none [OF Q, of x] obtain h1 where
    1: "git2r_diff_get_hunk_cb x None (p, h, sb) = Inr (0, (p, h1, sb))"
       "hunks_staged ra low N H L t0 d hps (p, h1, sb)"
    by blast
  from save_hunks_step [OF 1(2)] obtain h2 where
    "save_hunks p h1 = Inr h2" "all_flushed ra low N H L (t0 @ [(d, hps)]) (p, h2, sb)"
    by blast
  with 1(1) e show ?thesis by blast
qed

lemma file_cb_none:
  assumes "files_seen ra low N H L t (p, h, sb)"
  shows "\<exists>h'. git2r_diff_get_file_cb None (p, h, sb) = Inr (0, (p, h', sb)) \<and>
           all_flushed ra low N H L t (p, h', sb)"
  using flush_all [OF assms, of None]
  by (auto simp add: git2r_diff_get_file_cb_def bind_f_def)

lemma file_cb_some:
  assumes "files_seen ra low N H L t (p, h, sb)" "length t < N"
  shows "\<exists>s'. git2r_diff_get_file_cb (Some d) (p, h, sb) = Inr (0, s') \<and>
           file_seen ra low N H L t d [] s'"
proof -
  from flush_all [OF assms(1), of "Some d"] obtain h1 h2 where
    1: "git2r_diff_get_hunk_cb (Some d) None (p, h, sb) = Inr (0, (p, h1, sb))"
       "save_hunks p h1 = Inr h2" "all_flushed ra low N H L t (p, h2, sb)"
    by blast
  from push_file_step [OF 1(3) assms(2), of d] obtain p' h' where
    2: "push_file d p h2 = Inr (p', h')" "hunks_staged ra low N H L t d [] (p', h', sb)"
       "line_ptr p' = 0"
    by blast
  show ?thesis
    using 1(1,2) 2 by (auto simp add: git2r_diff_get_file_cb_def bind_f_def file_seen_def)
qed

lemma lines_run:
  assumes "lines_staged ra low N H L t d hps k ls s" "length ls + length ls' \<le> L"
    "sizeof_ptr < short_buffer_size"
  shows "\<exists>s'. mat_loop sizeof_ptr (map (Line_ev d' k') ls') s = Inr (0, s') \<and>
           lines_staged ra low N H L t d hps k (ls @ ls') s'"
  using assms(1,2)
proof (induction ls' arbitrary: ls s)
  case Nil
  then show ?case by simp
next
  case (Cons l ls')
  obtain p h sb where s: "s = (p, h, sb)" by (cases s)
  from Cons.prems have "length ls < L" by simp
  from line_step [OF Cons.prems(1) [unfolded s] this assms(3), of d' k' l] obtain s1 where
    1: "git2r_diff_get_line_cb sizeof_ptr d' k' l (p, h, sb) = Inr (0, s1)"
       "lines_staged ra low N H L t d hps k (ls @ [l]) s1"
    by blast
  from Cons.IH [OF 1(2)] Cons.prems(2) obtain s' where
    "mat_loop sizeof_ptr (map (Line_ev d' k') ls') s1 = Inr (0, s')"
    "lines_staged ra low N H L t d hps k ((ls @ [l]) @ ls') s'"
    by auto
  with 1(1) s show ?case by simp
qed

lemma hunk_run:
  assumes "file_seen ra low N H L t d hps s" "length hps < H" "length (snd hp) \<le> L"
    "sizeof_ptr < short_buffer_size"
  shows "\<exists>s'. mat_loop sizeof_ptr (hunk_events d' hp) s = Inr (0, s') \<and>
           file_seen ra low N H L t d (hps @ [hp]) s'"
proof -
  obtain p h sb where s: "s = (p, h, sb)" by (cases s)
  from hunk_cb_some [OF assms(1) [unfolded s] assms(2), of "Some d'" "fst hp"] obtain s1 where
    1: "git2r_diff_get_hunk_cb (Some d') (Some (fst hp)) (p, h, sb) = Inr (0, s1)"
       "lines_staged ra low N H L t d hps (fst hp) [] s1"
    by blast
  from lines_run [OF 1(2) _ assms(4), of "snd hp" d' "fst hp"] assms(3) obtain s' where
    2: "mat_loop sizeof_ptr (map (Line_ev d' (fst hp)) (snd hp)) s1 = Inr (0, s')"
       "lines_staged ra low N H L t d hps (fst hp) (snd hp) s'"
    by auto
  have "file_seen ra low N H L t d (hps @ [hp]) s'"
    unfolding file_seen_def using 2(2) by (intro disjI2 exI [of _ hps] exI [of _ "fst hp"] exI [of _ "snd hp"]) simp
  with 1(1) 2(1) s show ?thesis by (simp add: hunk_events_def)
qed

lemma hunks_run:
  assumes "file_seen ra low N H L t d hps s" "length hps + length hps' \<le> H"
    "\<forall>hp\<in>set hps'. length (snd hp) \<le> L" "sizeof_ptr < short_buffer_size"
  shows "\<exists>s'. mat_loop sizeof_ptr (concat (map (hunk_events d') hps')) s = Inr (0, s') \<and>
           file_seen ra low N H L t d (hps @ hps') s'"
  using assms(1,2,3)
proof (induction hps' arbitrary: hps s)
  case Nil
  then show ?case by simp
next
  case (Cons hp hps')
  from Cons.prems have "length hps < H" "length (snd hp) \<le> L" by simp_all
  from hunk_run [OF Cons.prems(1) this assms(4), of d'] obtain s1 where
    1: "mat_loop sizeof_ptr (hunk_events d' hp) s = Inr (0, s1)"
       "file_seen ra low N H L t d (hps @ [hp]) s1"
    by blast
  from Cons.IH [OF 1(2)] Cons.prems(2,3) obtain s' where
    "mat_loop sizeof_ptr (concat (map (hunk_events d') hps')) s1 = Inr (0, s')"
    "file_seen ra low N H L t d ((hps @ [hp]) @ hps') s'"
    by auto
  with 1(1) show ?case by (simp add: foreach_loop_append)
qed

lemma file_run:
  assumes "files_seen ra low N H L t s" "length t < N" "length (snd fp) \<le> H"
    "\<forall>hp\<in>set (snd fp). length (snd hp) \<le> L" "sizeof_ptr < short_buffer_size"
  shows "\<exists>s'. mat_loop sizeof_ptr (file_events fp) s = Inr (0, s') \<and>
           files_seen ra low N H L (t @ [fp]) s'"
proof -
  obtain p h sb where s: "s = (p, h, sb)" by (cases s)
  from file_cb_some [OF assms(1) [unfolded s] assms(2), of "fst fp"] obtain s1 where
    1: "git2r_diff_get_file_cb (Some (fst fp)) (p, h, sb) = Inr (0, s1)"
       "file_seen ra low N H L t (fst fp) [] s1"
    by blast
  from hunks_run [OF 1(2) _ assms(4,5), of "fst fp"] assms(3) obtain s' where
    2: "mat_loop sizeof_ptr (concat (map (hunk_events (fst fp)) (snd fp))) s1 = Inr (0, s')"
       "file_seen ra low N H L t (fst fp) (snd fp) s'"
    by auto
  have "files_seen ra low N H L (t @ [fp]) s'"
    unfolding files_seen_def using 2(2)
    by (intro disjI2 exI [of _ t] exI [of _ "fst fp"] exI [of _ "snd fp"]) simp
  with 1(1) 2(1) s show ?thesis by (simp add: file_events_def)
qed

lemma files_run:
  assumes "files_seen ra low N H L t s" "length t + length fps \<le> N"
    "\<forall>fp\<in>set fps. length (snd fp) \<le> H \<and> (\<forall>hp\<in>set (snd fp). length (snd hp) \<le> L)"
    "sizeof_ptr < short_buffer_size"
  shows "\<exists>s'. mat_loop sizeof_ptr (diff_events fps) s = Inr (0, s') \<and>
           files_seen ra low N H L (t @ fps) s'"
  using assms(1,2,3)
proof (induction fps arbitrary: t s)
  case Nil
  then show ?case by (simp add: diff_events_def)
next
  case (Cons fp fps)
  from Cons.prems have "length t < N" "length (snd fp) \<le> H" "\<forall>hp\<in>set (snd fp). length (snd hp) \<le> L"
    by simp_all
  from file_run [OF Cons.prems(1) this assms(4)] obtain s1 where
    1: "mat_loop sizeof_ptr (file_events fp) s = Inr (0, s1)"
       "files_seen ra low N H L (t @ [fp]) s1"
    by blast
  from Cons.IH [OF 1(2)] Cons.prems(2,3) obtain s' where
    "mat_loop sizeof_ptr (diff_events fps) s1 = Inr (0, s')"
    "files_seen ra low N H L ((t @ [fp]) @ fps) s'"
    by auto
  with 1(1) show ?case by (simp add: diff_events_def foreach_loop_append)
qed

subsection \<open>The start of the pass and the result read back\<close>

lemma alloc_payload_ok:
  assumes "da < length h" "h ! da = S4SXP cls sl" "length sb = short_buffer_size"
  shows "\<exists>p h'. alloc_payload N H L (Ref da) h = Inr (p, h') \<and>
           files_seen (length h) (take (length h) h') N H L [] (p, h', sb) \<and>
           h' ! da = S4SXP cls (AList.update ''files'' (Ref (length h)) sl) \<and>
           length h \<le> length h' \<and> (\<forall>a<length h. a \<noteq> da \<longrightarrow> h' ! a = h ! a)"
proof -
  let ?ra = "length h"
  let ?h' = "(h[da := S4SXP cls (AList.update ''files'' (Ref ?ra) sl)]) @
      [VECSXP (replicate N R_NilValue), VECSXP (replicate H R_NilValue),
       VECSXP (replicate L R_NilValue)]"
  let ?p = "\<lparr>result = Ref ?ra, hunk_tmp = Ref (Suc ?ra), line_tmp = Ref (Suc (Suc ?ra)),
      file_ptr = 0, hunk_ptr = 0, line_ptr = 0\<rparr>"
  have run: "alloc_payload N H L (Ref da) h = Inr (?p, ?h')"
    using assms(1,2)
    by (simp add: alloc_payload_def Rf_allocVector_def alloc_def bind_f_def nth_append
        list_update_append)
  have "base_ok ?ra (take ?ra ?h') N H L (?p, ?h', sb)"
    using assms(3) by (simp add: base_ok_def is_vec_def nth_append)
  then have "all_flushed ?ra (take ?ra ?h') N H L [] (?p, ?h', sb)"
    by (intro all_flushedI) simp_all
  then have "files_seen ?ra (take ?ra ?h') N H L [] (?p, ?h', sb)"
    by (simp add: files_seen_def)
  moreover have "?h' ! da = S4SXP cls (AList.update ''files'' (Ref ?ra) sl)"
    using assms(1) by (simp add: nth_append)
  moreover have "\<forall>a<length h. a \<noteq> da \<longrightarrow> ?h' ! a = h ! a"
    by (simp add: nth_append)
  ultimately show ?thesis using run by (intro exI [of _ ?p] exI [of _ ?h']) simp
qed

lemma read_int_ok: "int_at h lo hi v i \<Longrightarrow> hi \<le> length h \<Longrightarrow> read_int h v = Some i"
  by (auto simp add: int_at_def read_int_def)

lemma read_str_ok: "str_at h lo hi v s \<Longrightarrow> hi \<le> length h \<Longrightarrow> read_str h v = Some (c_str s)"
  by (auto simp add: str_at_def read_str_def)

lemma read_line_ok:
  assumes "line_ok h lo hi v l" "hi \<le> length h"
  shows "read_line h v = Some (r_line l)"
proof -
  from assms(1) obtain a sl where a: "v = Ref a" "a < hi" "h ! a = S4SXP ''git_diff_line'' sl"
    and f: "int_at h lo hi (map_of sl ''origin'') (origin l)"
        "int_at h lo hi (map_of sl ''old_lineno'') (old_lineno l)"
        "int_at h lo hi (map_of sl ''new_lineno'') (new_lineno l)"
        "int_at h lo hi (map_of sl ''num_lines'') (line_num_lines l)"
    and g: "str_at h lo hi (map_of sl ''content'') (content l)"
    unfolding line_ok_def by blast
  show ?thesis
    using a assms(2) f [THEN read_int_ok [OF _ assms(2)]] read_str_ok [OF g assms(2)]
    by (cases l) (simp add: read_line_def r_line_def)
qed

lemma those_map_all2:
  assumes "list_all2 (\<lambda>v x. f v = Some (g x)) vs xs"
  shows "those (map f vs) = Some (map g xs)"
  using assms by (induction vs xs rule: list_all2_induct) simp_all

lemma read_lines_ok:
  assumes "list_all2 (line_ok h lo hi) lv ls" "hi \<le> length h"
  shows "those (map (read_line h) lv) = Some (map r_line ls)"
  by (rule those_map_all2) (rule list_all2_mono [OF assms(1)], rule read_line_ok [OF _ assms(2)])

lemma read_hunk_ok:
  assumes "hunk_ok h lo hi v hp" "hi \<le> length h"
  shows "read_hunk h v = Some (r_hunk hp)"
proof -
  from assms(1) obtain a sl la lv where
    a: "v = Ref a" "a < hi" "h ! a = S4SXP ''git_diff_hunk'' sl"
    and f: "int_at h lo hi (map_of sl ''old_start'') (old_start (fst hp))"
       "int_at h lo hi (map_of sl ''old_lines'') (old_lines (fst hp))"
       "int_at h lo hi (map_of sl ''new_start'') (new_start (fst hp))"
       "int_at h lo hi (map_of sl ''new_lines'') (new_lines (fst hp))"
    and g: "str_at h lo hi (map_of sl ''header'') (header (fst hp))"
    and l: "map_of sl ''lines'' = Some (Ref la)" "la < hi" "h ! la = VECSXP lv"
    and ls: "list_all2 (line_ok h lo hi) lv (snd hp)"
    unfolding hunk_ok_def hunk_fields_def by blast
  show ?thesis
    using a l assms(2) f [THEN read_int_ok [OF _ assms(2)]] read_str_ok [OF g assms(2)]
      read_lines_ok [OF ls assms(2)]
    by (cases "fst hp") (simp add: read_hunk_def r_hunk_def read_list_def)
qed

lemma read_hunks_ok:
  assumes "list_all2 (hunk_ok h lo hi) hv hps" "hi \<le> length h"
  shows "those (map (read_hunk h) hv) = Some (map r_hunk hps)"
  by (rule those_map_all2) (rule list_all2_mono [OF assms(1)], rule read_hunk_ok [OF _ assms(2)])

lemma read_file_ok:
  assumes "file_ok h lo hi v fp" "hi \<le> length h"
  shows "read_file h v = Some (r_file fp)"
proof -
  from assms(1) obtain a sl ha hv where
    a: "v = Ref a" "a < hi" "h ! a = S4SXP ''git_diff_file'' sl"
    and g: "str_at h lo hi (map_of sl ''old_file'') (old_file_path (fst fp))"
       "str_at h lo hi (map_of sl ''new_file'') (new_file_path (fst fp))"
    and l: "map_of sl ''hunks'' = Some (Ref ha)" "ha < hi" "h ! ha = VECSXP hv"
    and hs: "list_all2 (hunk_ok h lo hi) hv (snd fp)"
    unfolding file_ok_def file_fields_def by blast
  show ?thesis
    using a l assms(2) g [THEN read_str_ok [OF _ assms(2)]] read_hunks_ok [OF hs assms(2)]
    by (simp add: read_file_def r_file_def read_list_def)
qed

lemma read_files_ok:
  assumes "list_all2 (file_ok h lo hi) rv t" "hi \<le> length h"
  shows "those (map (read_file h) rv) = Some (map r_file t)"
  by (rule those_map_all2) (rule list_all2_mono [OF assms(1)], rule read_file_ok [OF _ assms(2)])

text \<open>A file entered and not yet flushed reads as a file without hunks.\<close>

lemma read_file_open:
  assumes "file_open ra N t d fa hi p h" "hi \<le> length h"
  shows "read_file h (vec_of (h ! ra) ! length t) = Some (r_file (d, []))"
proof -
  from assms(1) obtain fsl where
    f: "vec_of (h ! ra) ! length t = Ref fa" "fa < hi" "h ! fa = S4SXP ''git_diff_file'' fsl"
    and ff: "file_fields h (Suc fa) hi fsl d" and u: "map_of fsl ''hunks'' = None"
    by (rule file_openE)
  from ff have g: "str_at h (Suc fa) hi (map_of fsl ''old_file'') (old_file_path d)"
       "str_at h (Suc fa) hi (map_of fsl ''new_file'') (new_file_path d)"
    by (simp_all add: file_fields_def)
  show ?thesis
    using f u assms(2) g [THEN read_str_ok [OF _ assms(2)]]
    by (simp add: read_file_def r_file_def read_list_def)
qed

lemma hunk_count_le: "fp \<in> set (patches diff) \<Longrightarrow> length (snd fp) \<le> largest_hunk_count diff"
  unfolding largest_hunk_count_def by (intro Max_ge) auto

lemma line_count_le:
  "fp \<in> set (patches diff) \<Longrightarrow> hp \<in> set (snd fp) \<Longrightarrow> length (snd hp) \<le> largest_line_count diff"
  unfolding largest_line_count_def by (intro Max_ge) auto

lemma those_append:
  "those xs = Some as \<Longrightarrow> those ys = Some bs \<Longrightarrow> those (xs @ ys) = Some (as @ bs)"
  by (induction xs arbitrary: as) (auto split: option.splits)

lemma read_dest:
  assumes "base_ok ra low N H L (p, h, sb)" "da < ra" "low ! da = S4SXP cls sl"
    "map_of sl ''files'' = Some (Ref ra)"
  shows "read_files h (Ref da) = those (map (read_file h) (vec_of (h ! ra)))"
proof -
  from assms(1) obtain rv hv lv where
    b: "ra + 3 \<le> length h" "h ! ra = VECSXP rv" "take ra h = low"
    by (rule base_okE)
  from b(3) assms(2) have "h ! da = low ! da" by (metis nth_take)
  then show ?thesis
    using assms(2,3,4) b(1,2) by (simp add: read_files_def read_list_def)
qed

lemma read_all_flushed:
  assumes "all_flushed ra low N H L t (p, h, sb)" "length t = N" "da < ra"
    "low ! da = S4SXP cls sl" "map_of sl ''files'' = Some (Ref ra)"
  shows "read_files h (Ref da) = Some (map r_file t)"
proof -
  from assms(1) have base: "base_ok ra low N H L (p, h, sb)"
    and fs: "list_all2 (file_ok h (ra + 3) (length h)) (take (length t) (vec_of (h ! ra))) t"
    by (auto elim: all_flushedE)
  from base obtain rv hv lv where rv: "h ! ra = VECSXP rv" "length rv = N"
    by (rule base_okE)
  from fs rv assms(2) have "list_all2 (file_ok h (ra + 3) (length h)) rv t" by simp
  from read_files_ok [OF this] show ?thesis
    using read_dest [OF base assms(3,4,5)] rv by simp
qed

text \<open>Before the last call of the file callback the last file has no hunks yet.\<close>

definition unflushed :: "file_patch list \<Rightarrow> file_patch list" where
  "unflushed t = (if t = [] then [] else map r_file (butlast t) @ [r_file (fst (last t), [])])"

lemma read_files_seen:
  assumes "files_seen ra low N H L t (p, h, sb)" "length t = N" "da < ra"
    "low ! da = S4SXP cls sl" "map_of sl ''files'' = Some (Ref ra)"
  shows "read_files h (Ref da) = Some (unflushed t)"
  using assms(1) unfolding files_seen_def
proof (elim disjE conjE exE)
  assume "t = []" "all_flushed ra low N H L [] (p, h, sb)"
  then show ?thesis using read_all_flushed [of ra low N H L "[]" p h sb da cls sl] assms(2-5)
    by (simp add: unflushed_def)
next
  fix t0 d hps
  assume t: "t = t0 @ [(d, hps)]" and Q: "file_seen ra low N H L t0 d hps (p, h, sb)"
  from Q obtain fa hi where base: "base_ok ra low N H L (p, h, sb)"
    and fo: "file_open ra N t0 d fa hi p h" and hi: "hi \<le> length h"
    unfolding file_seen_def by (auto elim!: hunks_stagedE lines_stagedE)
  from base obtain rv hv lv where rv: "h ! ra = VECSXP rv" "length rv = N"
    by (rule base_okE)
  from fo have fs: "list_all2 (file_ok h (ra + 3) fa) (take (length t0) (vec_of (h ! ra))) t0"
    and fa: "fa < hi" by (auto elim: file_openE)
  have 1: "those (map (read_file h) (take (length t0) rv)) = Some (map r_file t0)"
    using read_files_ok [OF fs] fa hi rv by simp
  have 2: "read_file h (rv ! length t0) = Some (r_file (d, []))"
    using read_file_open [OF fo hi] rv by simp
  have 3: "rv = take (length t0) rv @ [rv ! length t0]"
    using rv(2) assms(2) t by (simp add: take_Suc_conv_app_nth [symmetric])
  have "those (map (read_file h) rv) = Some (map r_file t0 @ [r_file (d, [])])"
    using those_append [OF 1, of "[read_file h (rv ! length t0)]" "[r_file (d, [])]"] 2
    by (subst 3) simp
  then show ?thesis
    using read_dest [OF base assms(3,4,5)] rv t by (simp add: unflushed_def)
qed

subsection \<open>Prefixes of a traversal\<close>

text \<open>A prefix of a traversal is the traversal of a diff cut short.\<close>

definition cut_of :: "file_patch list \<Rightarrow> file_patch list \<Rightarrow> bool" where
  "cut_of fps' fps =
     (length fps' \<le> length fps \<and>
      (\<forall>fp'\<in>set fps'. \<exists>fp\<in>set fps. length (snd fp') \<le> length (snd fp) \<and>
         (\<forall>hp'\<in>set (snd fp'). \<exists>hp\<in>set (snd fp). length (snd hp') \<le> length (snd hp))))"

lemma take_hunk_events:
  "take (Suc n) (hunk_events d hp) = hunk_events d (fst hp, take n (snd hp))"
  by (simp add: hunk_events_def take_map)

lemma take_hunks_events:
  "\<exists>hps'. take n (concat (map (hunk_events d) hps)) = concat (map (hunk_events d) hps') \<and>
     length hps' \<le> length hps \<and>
     (\<forall>hp'\<in>set hps'. \<exists>hp\<in>set hps. length (snd hp') \<le> length (snd hp))"
proof (induction hps arbitrary: n)
  case Nil
  show ?case by (intro exI [of _ "[]"]) simp
next
  case (Cons hp hps)
  show ?case
  proof (cases "n \<le> length (hunk_events d hp)")
    case True
    show ?thesis
    proof (cases n)
      case 0
      then show ?thesis by (intro exI [of _ "[]"]) simp
    next
      case (Suc m)
      with True show ?thesis
        by (intro exI [of _ "[(fst hp, take m (snd hp))]"]) (simp add: take_hunk_events)
    qed
  next
    case False
    from Cons.IH [of "n - length (hunk_events d hp)"] obtain hps' where
      "take (n - length (hunk_events d hp)) (concat (map (hunk_events d) hps)) =
         concat (map (hunk_events d) hps')"
      "length hps' \<le> length hps"
      "\<forall>hp'\<in>set hps'. \<exists>hp\<in>set hps. length (snd hp') \<le> length (snd hp)"
      by blast
    with False show ?thesis
      by (intro exI [of _ "hp # hps'"]) auto
  qed
qed

lemma take_file_events:
  "\<exists>hps'. take (Suc n) (file_events fp) = file_events (fst fp, hps') \<and>
     length hps' \<le> length (snd fp) \<and>
     (\<forall>hp'\<in>set hps'. \<exists>hp\<in>set (snd fp). length (snd hp') \<le> length (snd hp))"
  using take_hunks_events [of n "fst fp" "snd fp"] by (auto simp add: file_events_def)

lemma take_diff_events:
  "\<exists>fps'. take n (diff_events fps) = diff_events fps' \<and> cut_of fps' fps"
proof (induction fps arbitrary: n)
  case Nil
  show ?case by (intro exI [of _ "[]"]) (simp add: diff_events_def cut_of_def)
next
  case (Cons fp fps)
  show ?case
  proof (cases "n \<le> length (file_events fp)")
    case True
    show ?thesis
    proof (cases n)
      case 0
      then show ?thesis by (intro exI [of _ "[]"]) (simp add: diff_events_def cut_of_def)
    next
      case (Suc m)
      from take_file_events [of m fp] obtain hps' where
        "take (Suc m) (file_events fp) = file_events (fst fp, hps')"
        "length hps' \<le> length (snd fp)"
        "\<forall>hp'\<in>set hps'. \<exists>hp\<in>set (snd fp). length (snd hp') \<le> length (snd hp)"
        by blast
      with True Suc show ?thesis
        by (intro exI [of _ "[(fst fp, hps')]"]) (simp add: diff_events_def cut_of_def)
    qed
  next
    case False
    from Cons.IH [of "n - length (file_events fp)"] obtain fps' where
      "take (n - length (file_events fp)) (diff_events fps) = diff_events fps'" "cut_of fps' fps"
      by blast
    with False show ?thesis
      by (intro exI [of _ "fp # fps'"]) (auto simp add: diff_events_def cut_of_def)
  qed
qed

lemma cut_of_bounds:
  assumes "cut_of fps' (patches diff)"
  shows "length fps' \<le> file_count diff"
    "\<forall>fp\<in>set fps'. length (snd fp) \<le> largest_hunk_count diff \<and>
        (\<forall>hp\<in>set (snd fp). length (snd hp) \<le> largest_line_count diff)"
  using assms hunk_count_le [of _ diff] line_count_le [of _ diff]
  unfolding cut_of_def file_count_def by (simp, meson order_trans)

lemma cut_of_refl: "cut_of fps fps"
  unfolding cut_of_def by auto

text \<open>The indices and the lengths of the three vectors wherever the traversal stands.\<close>

definition vec_length :: "heap \<Rightarrow> sexp \<Rightarrow> nat option" where
  "vec_length h v = (case deref h v of Some (VECSXP xs) \<Rightarrow> Some (length xs) | _ \<Rightarrow> None)"

lemma base_ok_lengths:
  assumes "base_ok ra low N H L (p, h, sb)"
  shows "vec_length h (result p) = Some N \<and> vec_length h (hunk_tmp p) = Some H \<and>
         vec_length h (line_tmp p) = Some L"
  using assms by (elim base_okE) (simp add: vec_length_def)

lemma files_seen_bounds:
  assumes "files_seen ra low N H L t (p, h, sb)"
  shows "base_ok ra low N H L (p, h, sb) \<and> file_ptr p = length t \<and> length t \<le> N \<and>
         hunk_ptr p \<le> H \<and> line_ptr p \<le> L"
  using assms unfolding files_seen_def file_seen_def
  by (auto elim!: all_flushedE hunks_stagedE lines_stagedE file_openE)

subsection \<open>The whole pass\<close>

lemma deref_S4:
  assumes "deref h dest = Some (S4SXP cls sl)"
  obtains da where "dest = Ref da" "da < length h" "h ! da = S4SXP cls sl"
  using assms by (cases dest) (auto split: if_splits)

lemma traversal_prefix:
  assumes "files_seen ra low (file_count diff) (largest_hunk_count diff) (largest_line_count diff) [] s0"
    "sizeof_ptr < short_buffer_size"
  shows "\<exists>fps' s'. cut_of fps' (patches diff) \<and>
     mat_loop sizeof_ptr (take n (diff_events (patches diff))) s0 = Inr (0, s') \<and>
     files_seen ra low (file_count diff) (largest_hunk_count diff) (largest_line_count diff) fps' s'"
proof -
  from take_diff_events [of n "patches diff"] obtain fps' where
    c: "take n (diff_events (patches diff)) = diff_events fps'" "cut_of fps' (patches diff)"
    by blast
  from files_run [OF assms(1) _ cut_of_bounds(2) [OF c(2)] assms(2)] cut_of_bounds(1) [OF c(2)]
  obtain s' where
    "mat_loop sizeof_ptr (diff_events fps') s0 = Inr (0, s')"
    "files_seen ra low (file_count diff) (largest_hunk_count diff) (largest_line_count diff) ([] @ fps') s'"
    by auto
  with c show ?thesis by auto
qed

lemma traversal_full:
  assumes "files_seen ra low (file_count diff) (largest_hunk_count diff) (largest_line_count diff) [] s0"
    "sizeof_ptr < short_buffer_size"
  shows "\<exists>s'. mat_loop sizeof_ptr (diff_events (patches diff)) s0 = Inr (0, s') \<and>
     files_seen ra low (file_count diff) (largest_hunk_count diff) (largest_line_count diff)
       (patches diff) s'"
proof -
  from files_run [OF assms(1) _ cut_of_bounds(2) [OF cut_of_refl] assms(2)]
  obtain s' where
    "mat_loop sizeof_ptr (diff_events (patches diff)) s0 = Inr (0, s')"
    "files_seen ra low (file_count diff) (largest_hunk_count diff) (largest_line_count diff)
       ([] @ patches diff) s'"
    by (auto simp add: file_count_def)
  then show ?thesis by auto
qed

lemma format_to_r_run:
  assumes "broken diff = None" "da < length h" "h ! da = S4SXP cls sl"
    "length sb = short_buffer_size" "sizeof_ptr < short_buffer_size"
  shows "\<exists>p0 h0 p5 h5 sb5 h6.
     alloc_payload (file_count diff) (largest_hunk_count diff) (largest_line_count diff)
       (Ref da) h = Inr (p0, h0) \<and>
     git_diff_foreach diff git2r_diff_get_file_cb git2r_diff_get_hunk_cb
       (git2r_diff_get_line_cb sizeof_ptr) (p0, h0, sb) = Inr (0, (p5, h5, sb5)) \<and>
     git2r_diff_get_file_cb None (p5, h5, sb5) = Inr (0, (p5, h6, sb5)) \<and>
     git2r_diff_format_to_r sizeof_ptr diff (Ref da) (h, sb) = Inr (0, h6, sb5) \<and>
     read_files h5 (Ref da) = Some (unflushed (patches diff)) \<and>
     read_files h6 (Ref da) = Some (map r_file (patches diff)) \<and>
     length h \<le> length h6 \<and>
     h6 ! da = S4SXP cls (AList.update ''files'' (Ref (length h)) sl) \<and>
     (\<forall>a<length h. a \<noteq> da \<longrightarrow> h6 ! a = h ! a)"
proof -
  let ?N = "file_count diff" and ?H = "largest_hunk_count diff" and ?L = "largest_line_count diff"
  let ?ra = "length h"
  from alloc_payload_ok [OF assms(2,3,4), of ?N ?H ?L] obtain p0 h0 where
    a: "alloc_payload ?N ?H ?L (Ref da) h = Inr (p0, h0)"
       "files_seen ?ra (take ?ra h0) ?N ?H ?L [] (p0, h0, sb)"
       "h0 ! da = S4SXP cls (AList.update ''files'' (Ref ?ra) sl)" "?ra \<le> length h0"
       "\<forall>a<length h. a \<noteq> da \<longrightarrow> h0 ! a = h ! a"
    by blast
  let ?low = "take ?ra h0"
  have low: "?low ! da = S4SXP cls (AList.update ''files'' (Ref ?ra) sl)"
    using a(3) assms(2) by simp
  have slot: "map_of (AList.update ''files'' (Ref ?ra) sl) ''files'' = Some (Ref ?ra)"
    by (simp add: update_conv')
  from traversal_full [OF a(2) assms(5)] obtain s5 where
    t: "mat_loop sizeof_ptr (diff_events (patches diff)) (p0, h0, sb) = Inr (0, s5)"
       "files_seen ?ra ?low ?N ?H ?L (patches diff) s5"
    by blast
  obtain p5 h5 sb5 where s5: "s5 = (p5, h5, sb5)" by (cases s5)
  from file_cb_none [OF t(2) [unfolded s5]] obtain h6 where
    f: "git2r_diff_get_file_cb None (p5, h5, sb5) = Inr (0, (p5, h6, sb5))"
       "all_flushed ?ra ?low ?N ?H ?L (patches diff) (p5, h6, sb5)"
    by blast
  have fe: "git_diff_foreach diff git2r_diff_get_file_cb git2r_diff_get_hunk_cb
       (git2r_diff_get_line_cb sizeof_ptr) (p0, h0, sb) = Inr (0, (p5, h5, sb5))"
    using t(1) s5 assms(1) by (simp add: git_diff_foreach_def)
  have r5: "read_files h5 (Ref da) = Some (unflushed (patches diff))"
    using read_files_seen [OF t(2) [unfolded s5] _ assms(2) low slot] by (simp add: file_count_def)
  have r6: "read_files h6 (Ref da) = Some (map r_file (patches diff))"
    using read_all_flushed [OF f(2) _ assms(2) low slot] by (simp add: file_count_def)
  have "git2r_diff_format_to_r sizeof_ptr diff (Ref da) (h, sb) = Inr (0, h6, sb5)"
    using count_run [OF assms(1), of "(None, None, None)"] a(1) fe f(1)
    by (simp add: git2r_diff_format_to_r_def bind_f_def)
  moreover from f(2) have b6: "?ra + 3 \<le> length h6" "take ?ra h6 = ?low"
    by (auto elim!: all_flushedE base_okE)
  have k: "h6 ! a = h0 ! a" if "a < ?ra" for a
    using that nth_take [of a ?ra h6] nth_take [of a ?ra h0] b6(2) by simp
  have "length h \<le> length h6" using b6(1) by simp
  moreover have "h6 ! da = S4SXP cls (AList.update ''files'' (Ref (length h)) sl)"
    using k [OF assms(2)] a(3) by simp
  moreover have "\<forall>a<length h. a \<noteq> da \<longrightarrow> h6 ! a = h ! a"
    using k a(5) by simp
  ultimately show ?thesis using a(1) fe f(1) r5 r6 by blast
qed

section \<open>The claims about the Materializing Pass\<close>

text \<open>
  A store as \<^verbatim>\<open>git2r_diff_index_to_wd\<close> hands it over: the destination object with its
  \<open>old\<close> and \<open>new\<close> slots set.
\<close>

definition example_store :: heap where
  "example_store =
     [S4SXP ''git_diff'' [(''new'', Ref 2), (''old'', Ref 1)], STRSXP [''index''],
      STRSXP [''workdir'']]"

text \<open>For every file the number of lines of each of its hunks.\<close>

definition hunk_line_counts :: "file_patch list \<Rightarrow> nat list list" where
  "hunk_line_counts fps = map (\<lambda>fp. map (\<lambda>hp. length (snd hp)) (snd fp)) fps"

lemma hunk_line_counts_r_file: "hunk_line_counts (map r_file fps) = hunk_line_counts fps"
  by (simp add: hunk_line_counts_def r_file_def r_hunk_def comp_def)

lemma count_loop_total: "\<exists>n'. count_loop es n = Inr (0, n')"
proof (induction es arbitrary: n)
  case Nil
  show ?case by simp
next
  case (Cons e es)
  show ?case
    using Cons.IH
    by (cases e)
       (simp_all add: git2r_diff_count_file_cb_def git2r_diff_count_hunk_cb_def
          git2r_diff_count_line_cb_def Let_def)
qed

text \<open>
  Claim C2. For a diff whose traversal succeeds, a destination that is an S4 object,
  and a pointer smaller than the static buffer, \<open>git2r_diff_format_to_r\<close> returns 0 and
  the \<open>files\<close> slot of the destination then holds one entry per file of the diff; each
  entry has as many hunks as its file has in the diff and each hunk as many lines as
  that hunk has in the diff (not the maxima the staging vectors were sized with), with
  the values of the diff in them.
\<close>

theorem materialize_counts:
  assumes "broken diff = None" "deref h dest = Some (S4SXP cls sl)"
    "length sb = short_buffer_size" "sizeof_ptr < short_buffer_size"
  shows "\<exists>h' sb' fs. git2r_diff_format_to_r sizeof_ptr diff dest (h, sb) = Inr (0, h', sb') \<and>
     read_files h' dest = Some fs \<and> length fs = file_count diff \<and>
     hunk_line_counts fs = hunk_line_counts (patches diff) \<and>
     fs = map r_file (patches diff)"
proof -
  from assms(2) obtain da where d: "dest = Ref da" "da < length h" "h ! da = S4SXP cls sl"
    by (rule deref_S4)
  from format_to_r_run [OF assms(1) d(2,3) assms(3,4)] obtain h6 sb5 where
    "git2r_diff_format_to_r sizeof_ptr diff (Ref da) (h, sb) = Inr (0, h6, sb5)"
    "read_files h6 (Ref da) = Some (map r_file (patches diff))"
    by blast
  then show ?thesis
    using d(1) by (simp add: file_count_def hunk_line_counts_r_file)
qed

theorem materialize_counts_witness:
  "broken example_diff = None \<and>
   deref example_store (Ref 0) = Some (S4SXP ''git_diff'' [(''new'', Ref 2), (''old'', Ref 1)]) \<and>
   length (replicate 200 (CHR 0x00)) = short_buffer_size \<and> (8::nat) < short_buffer_size \<and>
   (\<exists>h' sb' fs.
      git2r_diff_format_to_r 8 example_diff (Ref 0) (example_store, replicate 200 (CHR 0x00)) =
        Inr (0, h', sb') \<and>
      read_files h' (Ref 0) = Some fs \<and> length fs = 2 \<and> hunk_line_counts fs = [[2, 1], []])"
proof -
  have 1: "broken example_diff = None" by (simp add: example_diff_def)
  have 2: "deref example_store (Ref 0) =
      Some (S4SXP ''git_diff'' [(''new'', Ref 2), (''old'', Ref 1)])"
    by (simp add: example_store_def)
  have 3: "length (replicate 200 (CHR 0x00)) = short_buffer_size"
    and 4: "(8::nat) < short_buffer_size"
    by (simp_all add: short_buffer_size_def)
  from materialize_counts [OF 1 2 3 4] obtain h' sb' fs where
    r: "git2r_diff_format_to_r 8 example_diff (Ref 0) (example_store, replicate 200 (CHR 0x00)) =
        Inr (0, h', sb')"
      "read_files h' (Ref 0) = Some fs" "length fs = file_count example_diff"
      "hunk_line_counts fs = hunk_line_counts (patches example_diff)"
    by blast
  have "length fs = 2" "hunk_line_counts fs = [[2, 1], []]"
    using r(3,4) by (simp_all add: example_diff_def file_count_def hunk_line_counts_def)
  with 1 2 3 4 r(1,2) show ?thesis by blast
qed

text \<open>
  Claim C3. When the traversal succeeds, \<open>git2r_diff_format_to_r\<close> calls the file
  callback once more, with a null delta, on the state the traversal left, and returns
  what that call returns. Before that call the result shows the last file without
  hunks; after it the result shows every file with its hunks and lines. A last file
  without hunks is in the result, with an empty sequence of hunks.
\<close>

theorem final_flush:
  assumes "broken diff = None" "deref h dest = Some (S4SXP cls sl)"
    "length sb = short_buffer_size" "sizeof_ptr < short_buffer_size"
  shows "\<exists>p0 h0 s5 s6 fs.
     alloc_payload (file_count diff) (largest_hunk_count diff) (largest_line_count diff)
       dest h = Inr (p0, h0) \<and>
     git_diff_foreach diff git2r_diff_get_file_cb git2r_diff_get_hunk_cb
       (git2r_diff_get_line_cb sizeof_ptr) (p0, h0, sb) = Inr (0, s5) \<and>
     git2r_diff_get_file_cb None s5 = Inr (0, s6) \<and>
     git2r_diff_format_to_r sizeof_ptr diff dest (h, sb) = Inr (0, snd s6) \<and>
     read_files (fst (snd s5)) dest = Some (unflushed (patches diff)) \<and>
     read_files (fst (snd s6)) dest = Some fs \<and> fs = map r_file (patches diff) \<and>
     (patches diff \<noteq> [] \<and> snd (last (patches diff)) = [] \<longrightarrow>
        fs \<noteq> [] \<and> last fs = r_file (last (patches diff)) \<and> snd (last fs) = [])"
proof -
  from assms(2) obtain da where d: "dest = Ref da" "da < length h" "h ! da = S4SXP cls sl"
    by (rule deref_S4)
  from format_to_r_run [OF assms(1) d(2,3) assms(3,4)] obtain p0 h0 p5 h5 sb5 h6 where
    r: "alloc_payload (file_count diff) (largest_hunk_count diff) (largest_line_count diff)
       (Ref da) h = Inr (p0, h0)"
     "git_diff_foreach diff git2r_diff_get_file_cb git2r_diff_get_hunk_cb
       (git2r_diff_get_line_cb sizeof_ptr) (p0, h0, sb) = Inr (0, (p5, h5, sb5))"
     "git2r_diff_get_file_cb None (p5, h5, sb5) = Inr (0, (p5, h6, sb5))"
     "git2r_diff_format_to_r sizeof_ptr diff (Ref da) (h, sb) = Inr (0, h6, sb5)"
     "read_files h5 (Ref da) = Some (unflushed (patches diff))"
     "read_files h6 (Ref da) = Some (map r_file (patches diff))"
    by blast
  have l: "patches diff \<noteq> [] \<and> snd (last (patches diff)) = [] \<longrightarrow>
      map r_file (patches diff) \<noteq> [] \<and>
      last (map r_file (patches diff)) = r_file (last (patches diff)) \<and>
      snd (last (map r_file (patches diff))) = []"
    by (simp add: last_map r_file_def)
  have "alloc_payload (file_count diff) (largest_hunk_count diff) (largest_line_count diff)
       dest h = Inr (p0, h0) \<and>
     git_diff_foreach diff git2r_diff_get_file_cb git2r_diff_get_hunk_cb
       (git2r_diff_get_line_cb sizeof_ptr) (p0, h0, sb) = Inr (0, (p5, h5, sb5)) \<and>
     git2r_diff_get_file_cb None (p5, h5, sb5) = Inr (0, (p5, h6, sb5)) \<and>
     git2r_diff_format_to_r sizeof_ptr diff dest (h, sb) = Inr (0, snd (p5, h6, sb5)) \<and>
     read_files (fst (snd (p5, h5, sb5))) dest = Some (unflushed (patches diff)) \<and>
     read_files (fst (snd (p5, h6, sb5))) dest = Some (map r_file (patches diff)) \<and>
     map r_file (patches diff) = map r_file (patches diff) \<and>
     (patches diff \<noteq> [] \<and> snd (last (patches diff)) = [] \<longrightarrow>
        map r_file (patches diff) \<noteq> [] \<and>
        last (map r_file (patches diff)) = r_file (last (patches diff)) \<and>
        snd (last (map r_file (patches diff))) = [])"
    (is ?c)
    using r d(1) by (simp add: last_map r_file_def)
  then have c: ?c .
  show ?thesis
    by (rule exI [of _ p0], rule exI [of _ h0], rule exI [of _ "(p5, h5, sb5)"],
        rule exI [of _ "(p5, h6, sb5)"], rule exI [of _ "map r_file (patches diff)"], rule c)
qed

theorem final_flush_witness:
  "broken example_diff = None \<and>
   deref example_store (Ref 0) = Some (S4SXP ''git_diff'' [(''new'', Ref 2), (''old'', Ref 1)]) \<and>
   length (replicate 200 (CHR 0x00)) = short_buffer_size \<and> (8::nat) < short_buffer_size \<and>
   patches example_diff \<noteq> [] \<and> snd (last (patches example_diff)) = [] \<and>
   (\<exists>p0 h0 s5 s6 fs.
      alloc_payload 2 2 2 (Ref 0) example_store = Inr (p0, h0) \<and>
      git_diff_foreach example_diff git2r_diff_get_file_cb git2r_diff_get_hunk_cb
        (git2r_diff_get_line_cb 8) (p0, h0, replicate 200 (CHR 0x00)) = Inr (0, s5) \<and>
      git2r_diff_get_file_cb None s5 = Inr (0, s6) \<and>
      git2r_diff_format_to_r 8 example_diff (Ref 0) (example_store, replicate 200 (CHR 0x00)) =
        Inr (0, snd s6) \<and>
      read_files (fst (snd s6)) (Ref 0) = Some fs \<and> fs \<noteq> [] \<and> snd (last fs) = [])"
proof -
  have 1: "broken example_diff = None" by (simp add: example_diff_def)
  have 2: "deref example_store (Ref 0) =
      Some (S4SXP ''git_diff'' [(''new'', Ref 2), (''old'', Ref 1)])"
    by (simp add: example_store_def)
  have 3: "length (replicate 200 (CHR 0x00)) = short_buffer_size"
    and 4: "(8::nat) < short_buffer_size"
    by (simp_all add: short_buffer_size_def)
  have 5: "patches example_diff \<noteq> []" "snd (last (patches example_diff)) = []"
    by (simp_all add: example_diff_def)
  have 6: "file_count example_diff = 2" "largest_hunk_count example_diff = 2"
    "largest_line_count example_diff = 2"
    by (simp_all add: example_diff_def file_count_def largest_hunk_count_def
        largest_line_count_def)
  from final_flush [OF 1 2 3 4] 5 obtain p0 h0 s5 s6 fs where
    "alloc_payload (file_count example_diff) (largest_hunk_count example_diff)
       (largest_line_count example_diff) (Ref 0) example_store = Inr (p0, h0)"
    "git_diff_foreach example_diff git2r_diff_get_file_cb git2r_diff_get_hunk_cb
        (git2r_diff_get_line_cb 8) (p0, h0, replicate 200 (CHR 0x00)) = Inr (0, s5)"
    "git2r_diff_get_file_cb None s5 = Inr (0, s6)"
    "git2r_diff_format_to_r 8 example_diff (Ref 0) (example_store, replicate 200 (CHR 0x00)) =
        Inr (0, snd s6)"
    "read_files (fst (snd s6)) (Ref 0) = Some fs" "fs \<noteq> []" "snd (last fs) = []"
    by auto
  with 1 2 3 4 5 show ?thesis unfolding 6 by blast
qed

text \<open>
  Claim C4. With the bounds the Counting Pass reports for a diff, the staging of the
  Materializing Pass stays inside the three vectors: after any number of callbacks
  of the traversal (so at every invocation of a callback, the last call of the file
  callback included) no write has failed, the vectors behind \<open>result\<close>, \<open>hunk_tmp\<close> and
  \<open>line_tmp\<close> still have the lengths they were allocated with, and \<open>file_ptr\<close>,
  \<open>hunk_ptr\<close> and \<open>line_ptr\<close> are at most these lengths.
\<close>

theorem staging_within_bounds:
  assumes "broken diff = None" "deref h dest = Some (S4SXP cls sl)"
    "length sb = short_buffer_size" "sizeof_ptr < short_buffer_size"
  shows "\<exists>N H L p0 h0.
     git2r_diff_count diff (None, None, None) = Inr (0, (Some N, Some H, Some L)) \<and>
     alloc_payload N H L dest h = Inr (p0, h0) \<and>
     (\<forall>n. \<exists>p h' sb'.
        foreach_loop git2r_diff_get_file_cb git2r_diff_get_hunk_cb
          (git2r_diff_get_line_cb sizeof_ptr) (take n (diff_events (patches diff)))
          (p0, h0, sb) = Inr (0, (p, h', sb')) \<and>
        file_ptr p \<le> N \<and> hunk_ptr p \<le> H \<and> line_ptr p \<le> L \<and>
        vec_length h' (result p) = Some N \<and> vec_length h' (hunk_tmp p) = Some H \<and>
        vec_length h' (line_tmp p) = Some L)"
proof -
  let ?N = "file_count diff" and ?H = "largest_hunk_count diff" and ?L = "largest_line_count diff"
  from assms(2) obtain da where d: "dest = Ref da" "da < length h" "h ! da = S4SXP cls sl"
    by (rule deref_S4)
  from alloc_payload_ok [OF d(2,3) assms(3), of ?N ?H ?L] obtain p0 h0 where
    a: "alloc_payload ?N ?H ?L (Ref da) h = Inr (p0, h0)"
       "files_seen (length h) (take (length h) h0) ?N ?H ?L [] (p0, h0, sb)"
    by blast
  have "\<exists>p h' sb'.
        mat_loop sizeof_ptr (take n (diff_events (patches diff))) (p0, h0, sb) =
          Inr (0, (p, h', sb')) \<and>
        file_ptr p \<le> ?N \<and> hunk_ptr p \<le> ?H \<and> line_ptr p \<le> ?L \<and>
        vec_length h' (result p) = Some ?N \<and> vec_length h' (hunk_tmp p) = Some ?H \<and>
        vec_length h' (line_tmp p) = Some ?L" for n
  proof -
    from traversal_prefix [OF a(2) assms(4), of n] obtain fps' s' where
      t: "mat_loop sizeof_ptr (take n (diff_events (patches diff))) (p0, h0, sb) = Inr (0, s')"
         "files_seen (length h) (take (length h) h0) ?N ?H ?L fps' s'"
      by blast
    obtain p h' sb' where s': "s' = (p, h', sb')" by (cases s')
    from files_seen_bounds [OF t(2) [unfolded s']] base_ok_lengths [of "length h" _ ?N ?H ?L p h' sb']
    show ?thesis using t(1) s' by auto
  qed
  with a(1) d(1) count_run [OF assms(1), of "(None, None, None)"] show ?thesis by blast
qed

theorem staging_within_bounds_witness:
  "broken example_diff = None \<and>
   deref example_store (Ref 0) = Some (S4SXP ''git_diff'' [(''new'', Ref 2), (''old'', Ref 1)]) \<and>
   length (replicate 200 (CHR 0x00)) = short_buffer_size \<and> (8::nat) < short_buffer_size \<and>
   (\<exists>N H L p0 h0.
     git2r_diff_count example_diff (None, None, None) = Inr (0, (Some N, Some H, Some L)) \<and>
     alloc_payload N H L (Ref 0) example_store = Inr (p0, h0) \<and>
     (\<forall>n. \<exists>p h' sb'.
        foreach_loop git2r_diff_get_file_cb git2r_diff_get_hunk_cb
          (git2r_diff_get_line_cb 8) (take n (diff_events (patches example_diff)))
          (p0, h0, replicate 200 (CHR 0x00)) = Inr (0, (p, h', sb')) \<and>
        file_ptr p \<le> N \<and> hunk_ptr p \<le> H \<and> line_ptr p \<le> L \<and>
        vec_length h' (result p) = Some N \<and> vec_length h' (hunk_tmp p) = Some H \<and>
        vec_length h' (line_tmp p) = Some L))"
proof -
  have 1: "broken example_diff = None" by (simp add: example_diff_def)
  have 2: "deref example_store (Ref 0) =
      Some (S4SXP ''git_diff'' [(''new'', Ref 2), (''old'', Ref 1)])"
    by (simp add: example_store_def)
  have 3: "length (replicate 200 (CHR 0x00)) = short_buffer_size"
    and 4: "(8::nat) < short_buffer_size"
    by (simp_all add: short_buffer_size_def)
  from staging_within_bounds [OF 1 2 3 4] 1 2 3 4 show ?thesis by blast
qed

text \<open>
  Claim C8. When the traversal of the Counting Pass fails, \<open>git2r_diff_count\<close> returns -1
  and leaves the three output locations as they were, and \<open>git2r_diff_format_to_r\<close>
  returns that -1 with the store as it found it: nothing is allocated, and no slot of
  the destination is set.
\<close>

theorem count_failure_aborts:
  assumes "broken diff = Some (n, c)"
  shows "git2r_diff_count diff out = Inr (- 1, out) \<and>
     git2r_diff_format_to_r sizeof_ptr diff dest (h, sb) = Inr (- 1, h, sb)"
proof -
  from count_loop_total [of "take n (diff_events (patches diff))"
      "\<lparr>num_files = 0, max_hunks = 0, max_lines = 0, num_hunks = 0, num_lines = 0\<rparr>"]
  obtain n' where "count_loop (take n (diff_events (patches diff)))
      \<lparr>num_files = 0, max_hunks = 0, max_lines = 0, num_hunks = 0, num_lines = 0\<rparr> = Inr (0, n')"
    by blast
  with assms have c: "git2r_diff_count diff out' = Inr (- 1, out')" for out'
    by (simp add: git2r_diff_count_def git_diff_foreach_def)
  then show ?thesis
    by (simp add: git2r_diff_format_to_r_def bind_f_def)
qed

theorem count_failure_aborts_witness:
  "broken (example_diff\<lparr>broken := Some (3, 0)\<rparr>) = Some (3, 0) \<and>
   git2r_diff_count (example_diff\<lparr>broken := Some (3, 0)\<rparr>) (None, None, None) =
     Inr (- 1, (None, None, None)) \<and>
   git2r_diff_format_to_r 8 (example_diff\<lparr>broken := Some (3, 0)\<rparr>) (Ref 0)
     (example_store, replicate 200 (CHR 0x00)) =
     Inr (- 1, example_store, replicate 200 (CHR 0x00))"
  using count_failure_aborts [of "example_diff\<lparr>broken := Some (3, 0)\<rparr>" 3 0 "(None, None, None)"
      8 "Ref 0" example_store "replicate 200 (CHR 0x00)"]
  by simp

section \<open>The claims about the buffer of the line callback\<close>

text \<open>
  Claim C10. With a pointer of fewer than 200 bytes, lines 926 to 929 of the line
  callback never write outside a buffer: content of at most \<open>sizeof(char *)\<close> bytes is
  copied into the static buffer by a \<open>memcpy\<close> and a terminator that both stay inside
  its 200 bytes, and longer content goes to a heap buffer of its length plus one.
\<close>

theorem short_buffer_in_bounds:
  assumes "sizeof_ptr + 1 \<le> short_buffer_size" "length sb = short_buffer_size"
  shows "(content_len line \<le> sizeof_ptr \<longrightarrow>
       (\<exists>b1 b2. memcpy_buf sb (content line) (content_len line) = Inr b1 \<and>
          store_byte b1 (content_len line) (CHR 0x00) = Inr b2 \<and>
          copy_content sizeof_ptr sb line = Inr (False, b2) \<and>
          length b2 = short_buffer_size)) \<and>
     (sizeof_ptr < content_len line \<longrightarrow>
       (\<exists>b. copy_content sizeof_ptr sb line = Inr (True, b) \<and>
          length b = content_len line + 1))"
  using assms
  by (auto simp add: copy_content_def memcpy_buf_def store_byte_def bind_f_def Let_def
      content_len_def)

theorem short_buffer_in_bounds_witness:
  "(8::nat) + 1 \<le> short_buffer_size \<and> length (replicate 200 (CHR 0x00)) = short_buffer_size \<and>
   content_len example_line2 \<le> 8 \<and>
   (\<exists>b1 b2. memcpy_buf (replicate 200 (CHR 0x00)) (content example_line2)
        (content_len example_line2) = Inr b1 \<and>
      store_byte b1 (content_len example_line2) (CHR 0x00) = Inr b2 \<and>
      copy_content 8 (replicate 200 (CHR 0x00)) example_line2 = Inr (False, b2) \<and>
      length b2 = short_buffer_size) \<and>
   8 < content_len example_line1 \<and>
   (\<exists>b. copy_content 8 (replicate 200 (CHR 0x00)) example_line1 = Inr (True, b) \<and>
      length b = content_len example_line1 + 1)"
proof -
  have 1: "(8::nat) + 1 \<le> short_buffer_size"
    and 2: "length (replicate 200 (CHR 0x00)) = short_buffer_size"
    by (simp_all add: short_buffer_size_def)
  have 3: "content_len example_line2 \<le> 8" "8 < content_len example_line1"
    by (simp_all add: content_len_def example_line1_def example_line2_def)
  from short_buffer_in_bounds [OF 1 2, of example_line2] short_buffer_in_bounds [OF 1 2, of example_line1]
    1 2 3 show ?thesis by blast
qed

text \<open>
  Claim C5 does not hold of the code. The content of \<open>example_line1\<close> has 28 bytes, which
  fit the 200 bytes of the static buffer, and on a platform with pointers of 8 bytes
  the callback takes a buffer from \<open>malloc\<close> for it: line 926 compares the length with
  \<^verbatim>\<open>sizeof(buffer)\<close>, the size of a pointer, where the size of \<open>short_buffer\<close> is meant.
\<close>

theorem heap_buffer_below_capacity:
  "content_len example_line1 = 28 \<and> content_len example_line1 \<le> short_buffer_size \<and>
   copy_content 8 (replicate 200 (CHR 0x00)) example_line1 =
     Inr (True, content example_line1 @ [CHR 0x00])"
  by (simp add: copy_content_def memcpy_buf_def store_byte_def bind_f_def Let_def
      content_len_def example_line1_def short_buffer_size_def)

section \<open>Arguments, errors and the library behind the entry points\<close>

text \<open>
  An argument as R passes it, as far as the checks of the entry points tell values
  apart: \<open>NULL\<close>, a character vector (an \<open>NA\<close> element is \<open>None\<close>), or anything else.
\<close>

datatype r_arg = R_null | R_character "string option list" | R_other

text \<open>
  Modelled from the spec: \<^verbatim>\<open>git2r_arg_check_filename\<close> and \<^verbatim>\<open>git2r_arg_check_string\<close> of
  \<^verbatim>\<open>git2r_arg.c\<close>, the "invalid-argument (wrong type/shape for a parameter)" checks. A
  filename is \<open>NULL\<close>, a character vector of length 0, or one of length 1 that is not
  \<open>NA\<close> (the comment above every diff function); a string argument is a character
  vector of length 1 that is not \<open>NA\<close>. Both return 0 for a good argument.
\<close>

definition git2r_arg_check_filename :: "r_arg \<Rightarrow> int" where
  "git2r_arg_check_filename arg =
     (case arg of
        R_null \<Rightarrow> 0
      | R_character [] \<Rightarrow> 0
      | R_character [Some s] \<Rightarrow> 0
      | _ \<Rightarrow> - 1)"

definition git2r_arg_check_string :: "r_arg \<Rightarrow> int" where
  "git2r_arg_check_string arg = (case arg of R_character [Some s] \<Rightarrow> 0 | _ \<Rightarrow> - 1)"

text \<open>
  Modelled from the spec: \<^verbatim>\<open>git2r_error\<close> of \<^verbatim>\<open>git2r_error.c\<close> raises an R error and does
  not return ("all errors abort the current operation immediately"). The error is
  kept as the call that raised it: the function name, \<^verbatim>\<open>giterr_last()\<close> if it was
  passed, and the two message arguments. The message constants of \<^verbatim>\<open>git2r_error.c\<close>
  are kept by name. The last error of the library is either one the library set
  itself or one set with \<^verbatim>\<open>giterr_set_str\<close>.
\<close>

datatype git2r_msg =
  Arg_name string
| git2r_err_filename_arg
| git2r_err_string_arg
| git2r_err_invalid_repository
| git2r_err_revparse_not_found
| git2r_err_revparse_single

datatype giterr = Library_error | Set_str git2r_msg

datatype r_condition =
  Git2r_error string "giterr option" "git2r_msg option" "git2r_msg option"
| Fault fault

text \<open>The error codes of libgit2 the code names.\<close>

definition GIT_OK :: int where "GIT_OK = 0"
definition GIT_ERROR :: int where "GIT_ERROR = - 1"
definition GIT_ENOTFOUND :: int where "GIT_ENOTFOUND = - 3"

text \<open>
  Modelled from the spec: the wrapped library as an "external collaborator". A
  repository is what its operations return: a failure \<open>Inl c\<close> stands for the negative
  error code \<open>- 1 - c\<close> (the library then has set its last error), \<open>Inr\<close> carries the
  value. An object has one of the types of \<^verbatim>\<open>git_otype\<close>. The R value that stands for a
  repository is given by what opening it yields (\<open>None\<close>: it cannot be opened).
\<close>

datatype git_otype =
  GIT_OBJ_ANY | GIT_OBJ_BAD | GIT_OBJ__EXT1 | GIT_OBJ_COMMIT | GIT_OBJ_TREE | GIT_OBJ_BLOB
| GIT_OBJ_TAG | GIT_OBJ__EXT2 | GIT_OBJ_OFS_DELTA | GIT_OBJ_REF_DELTA

record git_object =
  otype :: git_otype
  oid :: string

record git_repository =
  revparse_single :: "string \<Rightarrow> nat + git_object"
  diff_index_to_workdir :: "nat + git_diff"

definition git2r_repository_open :: "git_repository option \<Rightarrow> git_repository option" where
  "git2r_repository_open repo = repo"

definition lib_code :: "nat \<Rightarrow> int" where
  "lib_code c = - 1 - int c"

section \<open>Resolving a revision\<close>

text \<open>
  The value \<^verbatim>\<open>git2r_revparse_single\<close> returns: an S3 list or an S4 object of a class,
  filled in from the object found (by \<^verbatim>\<open>git2r_blob_init\<close>, \<^verbatim>\<open>git2r_commit_init\<close>,
  \<^verbatim>\<open>git2r_tag_init\<close> and \<^verbatim>\<open>git2r_tree_init\<close>, which are not part of these files).
\<close>

datatype r_object = S3_list string git_object | S4_object string git_object

definition git2r_revparse_single ::
    "git_repository option \<Rightarrow> r_arg \<Rightarrow> r_condition + r_object option" where
  "git2r_revparse_single repo revision =
     (if git2r_arg_check_string revision \<noteq> 0 then
        Inl (Git2r_error ''git2r_revparse_single'' None (Some (Arg_name ''revision''))
               (Some git2r_err_string_arg))
      else
        (case git2r_repository_open repo of
           None \<Rightarrow>
             Inl (Git2r_error ''git2r_revparse_single'' None
                    (Some git2r_err_invalid_repository) None)
         | Some repository \<Rightarrow>
             (case revision of
                R_character (Some spec # rest) \<Rightarrow>
                  (case (case revparse_single repository spec of
                           Inl c \<Rightarrow> (lib_code c, Some Library_error, None)
                         | Inr treeish \<Rightarrow>
                             (case otype treeish of
                                GIT_OBJ_BLOB \<Rightarrow> (0, None, Some (S3_list ''git_blob'' treeish))
                              | GIT_OBJ_COMMIT \<Rightarrow> (0, None, Some (S4_object ''git_commit'' treeish))
                              | GIT_OBJ_TAG \<Rightarrow> (0, None, Some (S4_object ''git_tag'' treeish))
                              | GIT_OBJ_TREE \<Rightarrow> (0, None, Some (S4_object ''git_tree'' treeish))
                              | _ \<Rightarrow> (GIT_ERROR, Some (Set_str git2r_err_revparse_single), None))) of
                     (err, last_error, res) \<Rightarrow>
                       if err \<noteq> 0 then
                         (if GIT_ENOTFOUND = err then
                            Inl (Git2r_error ''git2r_revparse_single'' None
                                   (Some git2r_err_revparse_not_found) None)
                          else Inl (Git2r_error ''git2r_revparse_single'' last_error None None))
                       else Inr res)
              | _ \<Rightarrow> Inl (Fault Not_a_vector))))"

text \<open>
  Claim C7. For a revision that is a string and a repository that opens,
  \<^verbatim>\<open>git2r_revparse_single\<close> returns a \<open>git_blob\<close> list or a \<open>git_commit\<close>, \<open>git_tag\<close> or
  \<open>git_tree\<close> object when the revision resolves to an object of that type; it raises
  the error of \<open>git2r_err_revparse_not_found\<close> when the library reports
  \<open>GIT_ENOTFOUND\<close>, an error carrying \<open>git2r_err_revparse_single\<close> (set as the
  library's last error) when the object is of another type, and an error carrying
  the library's own last error for every other failure. The three errors differ.
\<close>

theorem revparse_single_cases:
  assumes "git2r_arg_check_string revision = 0" "git2r_repository_open repo = Some repository"
  shows "\<exists>spec. revision = R_character [Some spec] \<and>
     git2r_revparse_single repo revision =
       (case revparse_single repository spec of
          Inr treeish \<Rightarrow>
            (case otype treeish of
               GIT_OBJ_BLOB \<Rightarrow> Inr (Some (S3_list ''git_blob'' treeish))
             | GIT_OBJ_COMMIT \<Rightarrow> Inr (Some (S4_object ''git_commit'' treeish))
             | GIT_OBJ_TAG \<Rightarrow> Inr (Some (S4_object ''git_tag'' treeish))
             | GIT_OBJ_TREE \<Rightarrow> Inr (Some (S4_object ''git_tree'' treeish))
             | _ \<Rightarrow> Inl (Git2r_error ''git2r_revparse_single''
                         (Some (Set_str git2r_err_revparse_single)) None None))
        | Inl c \<Rightarrow>
            if lib_code c = GIT_ENOTFOUND then
              Inl (Git2r_error ''git2r_revparse_single'' None
                     (Some git2r_err_revparse_not_found) None)
            else Inl (Git2r_error ''git2r_revparse_single'' (Some Library_error) None None)) \<and>
     Git2r_error ''git2r_revparse_single'' None (Some git2r_err_revparse_not_found) None \<noteq>
       Git2r_error ''git2r_revparse_single'' (Some (Set_str git2r_err_revparse_single)) None None \<and>
     Git2r_error ''git2r_revparse_single'' None (Some git2r_err_revparse_not_found) None \<noteq>
       Git2r_error ''git2r_revparse_single'' (Some Library_error) None None \<and>
     Git2r_error ''git2r_revparse_single'' (Some (Set_str git2r_err_revparse_single)) None None \<noteq>
       Git2r_error ''git2r_revparse_single'' (Some Library_error) None None"
proof -
  from assms(1) obtain spec where r: "revision = R_character [Some spec]"
    by (auto simp add: git2r_arg_check_string_def split: r_arg.splits list.splits option.splits)
  have "lib_code c \<noteq> 0" for c by (simp add: lib_code_def)
  then show ?thesis
    using assms r
    by (auto simp add: git2r_revparse_single_def GIT_ERROR_def GIT_ENOTFOUND_def
        split: sum.splits git_otype.splits)
qed

text \<open>
  A repository for the examples: \<open>HEAD\<close> is a commit, \<open>v1.0\<close> a tag, one revision resolves
  to an object that is none of the four kinds, one is refused by the library with
  another error than not-found, and nothing else is found. Its working directory
  differs from the index by \<open>example_diff\<close>.
\<close>

definition example_repository :: git_repository where
  "example_repository =
     \<lparr>revparse_single = (\<lambda>spec.
          if spec = ''HEAD'' then Inr \<lparr>otype = GIT_OBJ_COMMIT, oid = ''1f2e3d''\<rparr>
          else if spec = ''v1.0'' then Inr \<lparr>otype = GIT_OBJ_TAG, oid = ''aa11bb''\<rparr>
          else if spec = ''odd'' then Inr \<lparr>otype = GIT_OBJ_OFS_DELTA, oid = ''cc22dd''\<rparr>
          else if spec = ''a:b:c'' then Inl 11
          else Inl 2),
      diff_index_to_workdir = Inr example_diff\<rparr>"

theorem revparse_single_cases_witness:
  "git2r_arg_check_string (R_character [Some ''HEAD'']) = 0 \<and>
   git2r_repository_open (Some example_repository) = Some example_repository \<and>
   git2r_revparse_single (Some example_repository) (R_character [Some ''HEAD'']) =
     Inr (Some (S4_object ''git_commit'' \<lparr>otype = GIT_OBJ_COMMIT, oid = ''1f2e3d''\<rparr>)) \<and>
   git2r_revparse_single (Some example_repository) (R_character [Some ''nothing'']) =
     Inl (Git2r_error ''git2r_revparse_single'' None (Some git2r_err_revparse_not_found) None) \<and>
   git2r_revparse_single (Some example_repository) (R_character [Some ''odd'']) =
     Inl (Git2r_error ''git2r_revparse_single'' (Some (Set_str git2r_err_revparse_single))
            None None) \<and>
   git2r_revparse_single (Some example_repository) (R_character [Some ''a:b:c'']) =
     Inl (Git2r_error ''git2r_revparse_single'' (Some Library_error) None None)"
proof -
  have 1: "git2r_arg_check_string (R_character [Some s]) = 0" for s
    by (simp add: git2r_arg_check_string_def)
  have 2: "git2r_repository_open (Some example_repository) = Some example_repository"
    by (simp add: git2r_repository_open_def)
  show ?thesis
    using revparse_single_cases [OF 1 2, of "''HEAD''"] revparse_single_cases [OF 1 2, of "''nothing''"]
      revparse_single_cases [OF 1 2, of "''odd''"] revparse_single_cases [OF 1 2, of "''a:b:c''"]
      1 [of "''HEAD''"] 2
    by (simp add: example_repository_def lib_code_def GIT_ENOTFOUND_def)
qed

section \<open>The three output modes\<close>

text \<open>
  What an entry point works on: the store and the static buffer of the line callback,
  the files on disk by path, the paths \<^verbatim>\<open>fopen\<close> can open for writing, and what has been
  written to the standard output.
\<close>

record world =
  store :: heap
  short_buffer :: string
  fs :: "string \<Rightarrow> string option"
  can_open :: "string \<Rightarrow> bool"
  stdout :: string

text \<open>\<^verbatim>\<open>fopen(path, "w+")\<close>: the file is created or cut to length 0; \<open>None\<close> is \<open>NULL\<close>.\<close>

definition fopen_w :: "string \<Rightarrow> world \<Rightarrow> string option \<times> world" where
  "fopen_w path w =
     (if can_open w path then (Some path, w\<lparr>fs := (fs w)(path \<mapsto> [])\<rparr>) else (None, w))"

text \<open>
  Modelled from the spec: \<^verbatim>\<open>git_diff_print\<close> with \<^verbatim>\<open>GIT_DIFF_FORMAT_PATCH\<close>, "a patch-text
  rendering primitive with a pluggable output sink (buffer or file handle)". The
  library walks the diff and hands the sink one line at a time, with its origin and
  its text: for every file a header (what it says is the library's business: the
  parameter \<open>hdr\<close>), for every hunk its header, and every line of the hunk. The two
  sinks are libgit2's: both write the origin before the text of an added, a deleted
  and a context line, and the file sink writes to the standard output when it is
  handed no file. A traversal that fails does so as in \<open>git_diff_foreach\<close>.
\<close>

definition print_lines :: "(git_diff_delta \<Rightarrow> string) \<Rightarrow> file_patch list \<Rightarrow> (int \<times> string) list" where
  "print_lines hdr fps =
     concat (map (\<lambda>fp. (70, hdr (fst fp)) #
       concat (map (\<lambda>hp. (72, header (fst hp)) #
         map (\<lambda>l. (origin l, content l)) (snd hp)) (snd fp))) fps)"

definition line_text :: "int \<times> string \<Rightarrow> string" where
  "line_text l =
     (if fst l = 43 \<or> fst l = 45 \<or> fst l = 32 then char_of (fst l) # snd l else snd l)"

definition patch_text :: "(git_diff_delta \<Rightarrow> string) \<Rightarrow> git_diff \<Rightarrow> string" where
  "patch_text hdr diff = concat (map line_text (print_lines hdr (patches diff)))"

fun print_loop :: "(int \<times> string \<Rightarrow> 's \<Rightarrow> int \<times> 's) \<Rightarrow> (int \<times> string) list \<Rightarrow> 's \<Rightarrow> int \<times> 's" where
  "print_loop cb [] s = (0, s)"
| "print_loop cb (l # ls) s =
     (case cb l s of (rc, s') \<Rightarrow> if rc \<noteq> 0 then (rc, s') else print_loop cb ls s')"

definition git_diff_print :: "(git_diff_delta \<Rightarrow> string) \<Rightarrow> git_diff \<Rightarrow>
    (int \<times> string \<Rightarrow> 's \<Rightarrow> int \<times> 's) \<Rightarrow> 's \<Rightarrow> int \<times> 's" where
  "git_diff_print hdr diff cb s =
     (case broken diff of
        None \<Rightarrow> print_loop cb (print_lines hdr (patches diff)) s
      | Some (n, c) \<Rightarrow>
          (case print_loop cb (take n (print_lines hdr (patches diff))) s of
             (rc, s') \<Rightarrow> if rc \<noteq> 0 then (rc, s') else (lib_code c, s')))"

definition git_diff_print_callback__to_buf :: "int \<times> string \<Rightarrow> string \<Rightarrow> int \<times> string" where
  "git_diff_print_callback__to_buf l buf = (0, buf @ line_text l)"

definition git_diff_print_callback__to_file_handle ::
    "string option \<Rightarrow> int \<times> string \<Rightarrow> world \<Rightarrow> int \<times> world" where
  "git_diff_print_callback__to_file_handle fp l w =
     (case fp of
        None \<Rightarrow> (0, w\<lparr>stdout := stdout w @ line_text l\<rparr>)
      | Some path \<Rightarrow>
          (0, w\<lparr>fs := (fs w)(path \<mapsto> (case fs w path of None \<Rightarrow> [] | Some t \<Rightarrow> t) @ line_text l)\<rparr>))"

text \<open>
  The end of every diff function: after the cleanup, a non-zero \<open>err\<close> is raised as the
  library's last error, else \<open>result\<close> is returned.
\<close>

definition finish :: "string \<Rightarrow> int \<Rightarrow> sexp \<Rightarrow> world \<Rightarrow> (r_condition + sexp) \<times> world" where
  "finish func err res w =
     (if err \<noteq> 0 then (Inl (Git2r_error func (Some Library_error) None None), w)
      else (Inr res, w))"

text \<open>
  \<^verbatim>\<open>git2r_diff_index_to_wd\<close>. The other four diff functions differ in how they get
  their diff and in the \<open>old\<close> and \<open>new\<close> slots; the three branches on \<open>filename\<close> are the
  same text in all five. A fault in a branch is kept as the outcome.
\<close>

definition git2r_diff_index_to_wd :: "(git_diff_delta \<Rightarrow> string) \<Rightarrow> nat \<Rightarrow>
    git_repository option \<Rightarrow> r_arg \<Rightarrow> world \<Rightarrow> (r_condition + sexp) \<times> world" where
  "git2r_diff_index_to_wd hdr sizeof_ptr repo filename w =
     (if git2r_arg_check_filename filename \<noteq> 0 then
        (Inl (Git2r_error ''git2r_diff_index_to_wd'' None (Some (Arg_name ''filename''))
                (Some git2r_err_filename_arg)), w)
      else
        (case git2r_repository_open repo of
           None \<Rightarrow>
             (Inl (Git2r_error ''git2r_diff_index_to_wd'' None
                     (Some git2r_err_invalid_repository) None), w)
         | Some repository \<Rightarrow>
             (case diff_index_to_workdir repository of
                Inl c \<Rightarrow> finish ''git2r_diff_index_to_wd'' (lib_code c) R_NilValue w
              | Inr diff \<Rightarrow>
                  (case filename of
                     R_null \<Rightarrow>
                       (case NEW_OBJECT ''git_diff'' (store w) of (res, h1) \<Rightarrow>
                          (case bind_f (set_str_slot res ''old'' ''index'' h1) (\<lambda>h2.
                                bind_f (set_str_slot res ''new'' ''workdir'' h2) (\<lambda>h3.
                                git2r_diff_format_to_r sizeof_ptr diff res
                                  (h3, short_buffer w))) of
                             Inl f \<Rightarrow> (Inl (Fault f), w)
                           | Inr (err, h4, sb) \<Rightarrow>
                               finish ''git2r_diff_index_to_wd'' err res
                                 (w\<lparr>store := h4, short_buffer := sb\<rparr>)))
                   | R_character [] \<Rightarrow>
                       (case git_diff_print hdr diff git_diff_print_callback__to_buf [] of
                          (err, buf) \<Rightarrow>
                            if 0 = err then
                              (case Rf_mkString buf (store w) of (res, h1) \<Rightarrow>
                                 finish ''git2r_diff_index_to_wd'' err res (w\<lparr>store := h1\<rparr>))
                            else finish ''git2r_diff_index_to_wd'' err R_NilValue w)
                   | R_character (Some path # rest) \<Rightarrow>
                       (case fopen_w path w of (fp, w1) \<Rightarrow>
                          (case git_diff_print hdr diff
                                  (git_diff_print_callback__to_file_handle fp) w1 of
                             (err, w2) \<Rightarrow> finish ''git2r_diff_index_to_wd'' err R_NilValue w2))
                   | _ \<Rightarrow> (Inl (Fault Not_a_vector), w)))))"

text \<open>
  A world for the examples: an empty store, one file on disk, and one path that cannot
  be opened. The header of a file in the examples names its two paths.
\<close>

definition example_world :: world where
  "example_world =
     \<lparr>store = [], short_buffer = replicate 200 (CHR 0x00),
      fs = [''old.diff'' \<mapsto> ''stale''],
      can_open = (\<lambda>path. path \<noteq> ''/no/such/dir/out.diff''), stdout = []\<rparr>"

definition example_hdr :: "git_diff_delta \<Rightarrow> string" where
  "example_hdr d = ''diff --git a/'' @ old_file_path d @ '' b/'' @ new_file_path d @ [CHR 0x0A]"

text \<open>What an R caller reads from a \<open>git_diff\<close> object: its \<open>old\<close>, \<open>new\<close> and \<open>files\<close> slots.\<close>

definition read_git_diff :: "heap \<Rightarrow> sexp \<Rightarrow> (string \<times> string \<times> file_patch list) option" where
  "read_git_diff h v =
     (case deref h v of
        Some (S4SXP cls sl) \<Rightarrow>
          (if cls = ''git_diff'' then
             (case (read_str h (map_of sl ''old''), read_str h (map_of sl ''new''),
                    read_files h v) of
                (Some a, Some b, Some fl) \<Rightarrow> Some (a, b, fl)
              | _ \<Rightarrow> None)
           else None)
      | _ \<Rightarrow> None)"

lemma print_to_buf:
  "print_loop git_diff_print_callback__to_buf ls buf = (0, buf @ concat (map line_text ls))"
  by (induction ls arbitrary: buf) (simp_all add: git_diff_print_callback__to_buf_def)

lemma to_file_step:
  "fs w path = Some t \<Longrightarrow>
   git_diff_print_callback__to_file_handle (Some path) l w =
     (0, w\<lparr>fs := (fs w)(path \<mapsto> t @ line_text l)\<rparr>)"
  by (simp add: git_diff_print_callback__to_file_handle_def)

lemma print_to_file:
  "fs w path = Some t \<Longrightarrow>
   print_loop (git_diff_print_callback__to_file_handle (Some path)) ls w =
     (0, w\<lparr>fs := (fs w)(path \<mapsto> t @ concat (map line_text ls))\<rparr>)"
proof (induction ls arbitrary: w t)
  case Nil
  then have "(fs w)(path \<mapsto> t) = fs w" by (simp add: fun_upd_idem)
  then show ?case by simp
next
  case (Cons l ls)
  let ?w = "w\<lparr>fs := (fs w)(path \<mapsto> t @ line_text l)\<rparr>"
  have "fs ?w path = Some (t @ line_text l)" by simp
  from Cons.IH [OF this] show ?case
    by (simp add: to_file_step [OF Cons.prems] cong: if_cong)
qed

lemma print_to_stdout:
  "print_loop (git_diff_print_callback__to_file_handle None) ls w =
     (0, w\<lparr>stdout := stdout w @ concat (map line_text ls)\<rparr>)"
  by (induction ls arbitrary: w) (simp_all add: git_diff_print_callback__to_file_handle_def)

lemma lib_code_nonzero: "lib_code c \<noteq> 0"
  by (simp add: lib_code_def)

lemma format_to_r_broken:
  "broken diff = Some (n, c) \<Longrightarrow>
   git2r_diff_format_to_r sizeof_ptr diff dest (h, sb) = Inr (- 1, h, sb)"
proof -
  assume b: "broken diff = Some (n, c)"
  from count_loop_total [of "take n (diff_events (patches diff))"
      "\<lparr>num_files = 0, max_hunks = 0, max_lines = 0, num_hunks = 0, num_lines = 0\<rparr>"]
  obtain n' where "count_loop (take n (diff_events (patches diff)))
      \<lparr>num_files = 0, max_hunks = 0, max_lines = 0, num_hunks = 0, num_lines = 0\<rparr> = Inr (0, n')"
    by blast
  with b have "git2r_diff_count diff (None, None, None) = Inr (- 1, (None, None, None))"
    by (simp add: git2r_diff_count_def git_diff_foreach_def)
  then show ?thesis
    by (simp add: git2r_diff_format_to_r_def bind_f_def)
qed

text \<open>The three branches of \<open>git2r_diff_index_to_wd\<close> on a diff whose traversal succeeds.\<close>

lemma structured_mode:
  assumes "git2r_repository_open repo = Some repository"
    "diff_index_to_workdir repository = Inr diff" "broken diff = None"
    "length (short_buffer w) = short_buffer_size" "sizeof_ptr < short_buffer_size"
  shows "\<exists>h' sb'. git2r_diff_index_to_wd hdr sizeof_ptr repo R_null w =
       (Inr (Ref (length (store w))), w\<lparr>store := h', short_buffer := sb'\<rparr>) \<and>
     read_git_diff h' (Ref (length (store w))) =
       Some (''index'', ''workdir'', map r_file (patches diff)) \<and>
     read_files h' (Ref (length (store w))) = Some (map r_file (patches diff))"
proof -
  let ?h = "store w" and ?da = "length (store w)"
  let ?sl = "AList.update ''new'' (Ref (?da + 2)) (AList.update ''old'' (Ref (?da + 1)) [])"
  let ?h3 = "?h @ [S4SXP ''git_diff'' ?sl, STRSXP [c_str ''index''], STRSXP [c_str ''workdir'']]"
  have pre: "bind_f (set_str_slot (Ref ?da) ''old'' ''index'' (?h @ [S4SXP ''git_diff'' []]))
      (\<lambda>h2. bind_f (set_str_slot (Ref ?da) ''new'' ''workdir'' h2) F) = F ?h3" for F
    by (simp add: bind_f_def set_str_slot_def Rf_mkString_def alloc_def nth_append
        list_update_append)
  have d: "?da < length ?h3" "?h3 ! ?da = S4SXP ''git_diff'' ?sl"
    by (simp_all add: nth_append)
  from format_to_r_run [OF assms(3) d assms(4,5)] obtain h6 sb5 where
    r: "git2r_diff_format_to_r sizeof_ptr diff (Ref ?da) (?h3, short_buffer w) = Inr (0, h6, sb5)"
       "read_files h6 (Ref ?da) = Some (map r_file (patches diff))"
       "length ?h3 \<le> length h6"
       "h6 ! ?da = S4SXP ''git_diff'' (AList.update ''files'' (Ref (length ?h3)) ?sl)"
       "\<forall>a<length ?h3. a \<noteq> ?da \<longrightarrow> h6 ! a = ?h3 ! a"
    by blast
  have run: "git2r_diff_index_to_wd hdr sizeof_ptr repo R_null w =
       (Inr (Ref ?da), w\<lparr>store := h6, short_buffer := sb5\<rparr>)"
    using assms(1,2) r(1)
    by (simp add: git2r_diff_index_to_wd_def git2r_arg_check_filename_def NEW_OBJECT_def
        alloc_def pre finish_def)
  have o: "h6 ! (?da + 1) = STRSXP [c_str ''index'']" "h6 ! (?da + 2) = STRSXP [c_str ''workdir'']"
    using r(5) by (simp_all add: nth_append)
  have c: "c_str ''index'' = ''index''" "c_str ''workdir'' = ''workdir''"
    by (simp_all add: c_str_def)
  have "read_git_diff h6 (Ref ?da) = Some (''index'', ''workdir'', map r_file (patches diff))"
    using r(2,3,4) o c
    by (simp add: read_git_diff_def read_str_def update_conv')
  with run r(2) show ?thesis by blast
qed

lemma text_mode:
  assumes "git2r_repository_open repo = Some repository"
    "diff_index_to_workdir repository = Inr diff" "broken diff = None"
  shows "git2r_diff_index_to_wd hdr sizeof_ptr repo (R_character []) w =
       (Inr (Ref (length (store w))),
        w\<lparr>store := store w @ [STRSXP [c_str (patch_text hdr diff)]]\<rparr>)"
  using assms
  by (simp add: git2r_diff_index_to_wd_def git2r_arg_check_filename_def git_diff_print_def
      print_to_buf patch_text_def Rf_mkString_def alloc_def finish_def)

lemma file_mode:
  assumes "git2r_repository_open repo = Some repository"
    "diff_index_to_workdir repository = Inr diff" "broken diff = None"
  shows "git2r_diff_index_to_wd hdr sizeof_ptr repo (R_character [Some path]) w =
       (Inr R_NilValue,
        if can_open w path then w\<lparr>fs := (fs w)(path \<mapsto> patch_text hdr diff)\<rparr>
        else w\<lparr>stdout := stdout w @ patch_text hdr diff\<rparr>)"
proof (cases "can_open w path")
  case True
  have "fs (w\<lparr>fs := (fs w)(path \<mapsto> [])\<rparr>) path = Some []" by simp
  from print_to_file [OF this, of "print_lines hdr (patches diff)"] True assms show ?thesis
    by (simp add: git2r_diff_index_to_wd_def git2r_arg_check_filename_def git_diff_print_def
        patch_text_def fopen_w_def finish_def)
next
  case False
  with assms show ?thesis
    by (simp add: git2r_diff_index_to_wd_def git2r_arg_check_filename_def git_diff_print_def
        print_to_stdout patch_text_def fopen_w_def finish_def)
qed

lemma broken_raises:
  assumes "git2r_repository_open repo = Some repository"
    "diff_index_to_workdir repository = Inr diff" "broken diff = Some (n, c)"
  shows "\<exists>e w'. git2r_diff_index_to_wd hdr sizeof_ptr repo filename w = (Inl e, w')"
proof -
  have 1: "fst (print_loop (git_diff_print_callback__to_file_handle fp) ls w1) = 0" for fp ls w1
    by (cases fp) (simp_all add: print_to_stdout, induction ls arbitrary: w1,
        simp_all add: git_diff_print_callback__to_file_handle_def)
  show ?thesis
    using assms format_to_r_broken [OF assms(3)] lib_code_nonzero [of c]
      1 [of _ "take n (print_lines hdr (patches diff))"]
    by (auto simp add: git2r_diff_index_to_wd_def git_diff_print_def print_to_buf finish_def
        NEW_OBJECT_def alloc_def bind_f_def set_str_slot_def Rf_mkString_def nth_append
        fopen_w_def
        split: r_arg.splits list.splits option.splits prod.splits sum.splits if_splits)
qed


subsection \<open>Claims about the output modes\<close>


text \<open>
  A line with a NUL byte in its content (a text file may hold one beyond the part the
  library looks at to tell binary files), a repository whose working directory
  differs from the index by this line, and one whose diff the library cannot compute.
\<close>

definition nul_line :: git_diff_line where
  "nul_line =
     \<lparr>origin = 43, old_lineno = - 1, new_lineno = 1, line_num_lines = 1,
      content = [CHR ''a'', CHR 0x00, CHR ''b'']\<rparr>"

definition nul_diff :: git_diff where
  "nul_diff =
     \<lparr>patches = [(\<lparr>old_file_path = ''a.txt'', new_file_path = ''a.txt''\<rparr>,
                  [(example_hunk, [nul_line])])],
      broken = None\<rparr>"

definition nul_repository :: git_repository where
  "nul_repository = example_repository\<lparr>diff_index_to_workdir := Inr nul_diff\<rparr>"

definition failing_repository :: git_repository where
  "failing_repository = example_repository\<lparr>diff_index_to_workdir := Inl 0\<rparr>"

definition empty_repository :: git_repository where
  "empty_repository =
     example_repository\<lparr>diff_index_to_workdir := Inr \<lparr>patches = [], broken = None\<rparr>\<rparr>"

lemma origin_chars:
  "char_of (43::int) = CHR ''+''" "char_of (45::int) = CHR ''-''" "char_of (32::int) = CHR '' ''"
  by code_simp+

text \<open>
  Claim C6, as stated, does not hold: in text mode the string returned ends at the
  first NUL byte of the patch text, and an operation whose diff the library cannot
  compute raises an error and yields nothing.
\<close>

theorem output_modes_counterexample:
  "git2r_diff_index_to_wd example_hdr 8 (Some nul_repository) (R_character []) example_world =
     (Inr (Ref 0), example_world\<lparr>store := [STRSXP [c_str (patch_text example_hdr nul_diff)]]\<rparr>) \<and>
   length (patch_text example_hdr nul_diff) = 46 \<and>
   length (c_str (patch_text example_hdr nul_diff)) = 44 \<and>
   c_str (patch_text example_hdr nul_diff) \<noteq> patch_text example_hdr nul_diff \<and>
   git2r_diff_index_to_wd example_hdr 8 (Some failing_repository) R_null example_world =
     (Inl (Git2r_error ''git2r_diff_index_to_wd'' (Some Library_error) None None),
      example_world)"
proof -
  have 1: "git2r_repository_open (Some nul_repository) = Some nul_repository"
    by (simp add: git2r_repository_open_def)
  have 2: "diff_index_to_workdir nul_repository = Inr nul_diff"
    by (simp add: nul_repository_def)
  have 3: "broken nul_diff = None" by (simp add: nul_diff_def)
  have 4: "store example_world = []" by (simp add: example_world_def)
  have 5: "length (patch_text example_hdr nul_diff) = 46"
    "length (c_str (patch_text example_hdr nul_diff)) = 44"
    by (simp_all add: patch_text_def print_lines_def nul_diff_def nul_line_def example_hunk_def
        example_hdr_def line_text_def c_str_def origin_chars)
  have 6: "c_str (patch_text example_hdr nul_diff) \<noteq> patch_text example_hdr nul_diff"
  proof
    assume "c_str (patch_text example_hdr nul_diff) = patch_text example_hdr nul_diff"
    then have "length (c_str (patch_text example_hdr nul_diff)) =
        length (patch_text example_hdr nul_diff)"
      by simp
    with 5 show False by simp
  qed
  have 7: "git2r_diff_index_to_wd example_hdr 8 (Some failing_repository) R_null example_world =
     (Inl (Git2r_error ''git2r_diff_index_to_wd'' (Some Library_error) None None),
      example_world)"
    by (simp add: git2r_diff_index_to_wd_def git2r_arg_check_filename_def
        git2r_repository_open_def failing_repository_def finish_def lib_code_def)
  from text_mode [OF 1 2 3, of example_hdr 8 example_world] 4 5 6 7 show ?thesis by simp
qed

text \<open>
  Claim C6, amended. For an operation of \<open>git2r_diff_index_to_wd\<close> that returns without
  an error, \<open>filename\<close> is of exactly one of three shapes and selects the output: for
  \<open>NULL\<close> the value returned is a \<open>git_diff\<close> object whose \<open>files\<close> slot holds the diff,
  and neither a file nor the standard output is touched; for a character vector of
  length 0 it is a new character string holding the patch text up to its first NUL
  byte, and nothing else changes (no object tree is built); for a character vector of
  one string the value is \<open>NULL\<close>, the store is left as it was and, when the file can be
  opened for writing, all that changes is that the file holds the patch text.
\<close>

theorem output_modes:
  assumes "git2r_diff_index_to_wd hdr sizeof_ptr repo filename w = (Inr v, w')"
    "length (short_buffer w) = short_buffer_size" "sizeof_ptr < short_buffer_size"
  shows "\<exists>repository diff.
     git2r_repository_open repo = Some repository \<and>
     diff_index_to_workdir repository = Inr diff \<and> broken diff = None \<and>
     (case filename of
        R_null \<Rightarrow>
          read_git_diff (store w') v = Some (''index'', ''workdir'', map r_file (patches diff)) \<and>
          fs w' = fs w \<and> stdout w' = stdout w
      | R_character [] \<Rightarrow>
          v = Ref (length (store w)) \<and>
          w' = w\<lparr>store := store w @ [STRSXP [c_str (patch_text hdr diff)]]\<rparr>
      | R_character [Some path] \<Rightarrow>
          v = R_NilValue \<and> store w' = store w \<and>
          (can_open w path \<longrightarrow> w' = w\<lparr>fs := (fs w)(path \<mapsto> patch_text hdr diff)\<rparr>)
      | _ \<Rightarrow> False)"
proof -
  from assms(1) have chk: "git2r_arg_check_filename filename = 0"
    by (auto simp add: git2r_diff_index_to_wd_def split: if_splits)
  from assms(1) chk obtain repository where o: "git2r_repository_open repo = Some repository"
    by (cases "git2r_repository_open repo") (auto simp add: git2r_diff_index_to_wd_def)
  from assms(1) chk o obtain diff where d: "diff_index_to_workdir repository = Inr diff"
    by (cases "diff_index_to_workdir repository")
       (auto simp add: git2r_diff_index_to_wd_def finish_def lib_code_nonzero)
  have b: "broken diff = None"
  proof (cases "broken diff")
    case None
    then show ?thesis .
  next
    case (Some nc)
    then obtain n c where "broken diff = Some (n, c)" by (cases nc) simp
    from broken_raises [OF o d this, of hdr sizeof_ptr filename w] assms(1) show ?thesis by simp
  qed
  from chk consider "filename = R_null" | "filename = R_character []"
    | path where "filename = R_character [Some path]"
    by (auto simp add: git2r_arg_check_filename_def
        split: r_arg.splits list.splits option.splits)
  then have "case filename of
        R_null \<Rightarrow>
          read_git_diff (store w') v = Some (''index'', ''workdir'', map r_file (patches diff)) \<and>
          fs w' = fs w \<and> stdout w' = stdout w
      | R_character [] \<Rightarrow>
          v = Ref (length (store w)) \<and>
          w' = w\<lparr>store := store w @ [STRSXP [c_str (patch_text hdr diff)]]\<rparr>
      | R_character [Some path] \<Rightarrow>
          v = R_NilValue \<and> store w' = store w \<and>
          (can_open w path \<longrightarrow> w' = w\<lparr>fs := (fs w)(path \<mapsto> patch_text hdr diff)\<rparr>)
      | _ \<Rightarrow> False"
  proof cases
    case 1
    from structured_mode [OF o d b assms(2,3), of hdr] assms(1) 1 show ?thesis by auto
  next
    case 2
    from text_mode [OF o d b, of hdr sizeof_ptr w] assms(1) 2 show ?thesis by auto
  next
    case 3
    from file_mode [OF o d b, of hdr sizeof_ptr path w] assms(1) 3 show ?thesis
      by (auto split: if_splits)
  qed
  with o d b show ?thesis by blast
qed

theorem output_modes_witness:
  "length (short_buffer example_world) = short_buffer_size \<and> (8::nat) < short_buffer_size \<and>
   (\<exists>v w'. git2r_diff_index_to_wd example_hdr 8 (Some example_repository) R_null example_world =
        (Inr v, w') \<and>
      read_git_diff (store w') v =
        Some (''index'', ''workdir'', map r_file (patches example_diff)) \<and>
      fs w' = fs example_world \<and> stdout w' = stdout example_world) \<and>
   git2r_diff_index_to_wd example_hdr 8 (Some example_repository) (R_character []) example_world =
     (Inr (Ref 0),
      example_world\<lparr>store := [STRSXP [c_str (patch_text example_hdr example_diff)]]\<rparr>) \<and>
   can_open example_world ''old.diff'' \<and>
   git2r_diff_index_to_wd example_hdr 8 (Some example_repository)
       (R_character [Some ''old.diff'']) example_world =
     (Inr R_NilValue,
      example_world\<lparr>fs := (fs example_world)(''old.diff'' \<mapsto> patch_text example_hdr example_diff)\<rparr>)"
proof -
  have 1: "length (short_buffer example_world) = short_buffer_size"
    and 2: "(8::nat) < short_buffer_size"
    by (simp_all add: example_world_def short_buffer_size_def)
  have o: "git2r_repository_open (Some example_repository) = Some example_repository"
    by (simp add: git2r_repository_open_def)
  have d: "diff_index_to_workdir example_repository = Inr example_diff"
    by (simp add: example_repository_def)
  have b: "broken example_diff = None" by (simp add: example_diff_def)
  have c: "can_open example_world ''old.diff''" by (simp add: example_world_def)
  have s: "store example_world = []" by (simp add: example_world_def)
  from structured_mode [OF o d b 1 2, of example_hdr] obtain h' sb' where
    a: "git2r_diff_index_to_wd example_hdr 8 (Some example_repository) R_null example_world =
       (Inr (Ref (length (store example_world))), example_world\<lparr>store := h', short_buffer := sb'\<rparr>)"
    by blast
  from output_modes [OF a 1 2] o d
  have "read_git_diff h' (Ref (length (store example_world))) =
      Some (''index'', ''workdir'', map r_file (patches example_diff))"
    by auto
  with a have A: "\<exists>v w'. git2r_diff_index_to_wd example_hdr 8 (Some example_repository) R_null
        example_world = (Inr v, w') \<and>
      read_git_diff (store w') v =
        Some (''index'', ''workdir'', map r_file (patches example_diff)) \<and>
      fs w' = fs example_world \<and> stdout w' = stdout example_world"
    by (intro exI [of _ "Ref (length (store example_world))"]
        exI [of _ "example_world\<lparr>store := h', short_buffer := sb'\<rparr>"]) simp
  have t: "git2r_diff_index_to_wd example_hdr 8 (Some example_repository) (R_character [])
      example_world = (Inr (Ref 0),
      example_world\<lparr>store := [STRSXP [c_str (patch_text example_hdr example_diff)]]\<rparr>)"
    using text_mode [OF o d b, of example_hdr 8 example_world] s by simp
  have f: "git2r_diff_index_to_wd example_hdr 8 (Some example_repository)
       (R_character [Some ''old.diff'']) example_world =
     (Inr R_NilValue,
      example_world\<lparr>fs := (fs example_world)(''old.diff'' \<mapsto> patch_text example_hdr example_diff)\<rparr>)"
    using file_mode [OF o d b, of example_hdr 8 "''old.diff''" example_world] c by simp
  from 1 2 A t c f show ?thesis by blast
qed

text \<open>
  Claim C9. For a diff without files whose traversal succeeds, the structured mode
  returns an object whose sequence of files has length 0, and the text mode returns
  the empty string. A call of the file callback with a null delta on a payload whose
  \<open>file_ptr\<close> and \<open>hunk_ptr\<close> are 0, as the last call of such a traversal is, changes
  nothing.
\<close>

theorem empty_diff:
  assumes "git2r_repository_open repo = Some repository"
    "diff_index_to_workdir repository = Inr diff" "patches diff = []" "broken diff = None"
    "length (short_buffer w) = short_buffer_size" "sizeof_ptr < short_buffer_size"
  shows "(\<exists>v w' files. git2r_diff_index_to_wd hdr sizeof_ptr repo R_null w = (Inr v, w') \<and>
        read_files (store w') v = Some files \<and> length files = 0) \<and>
     git2r_diff_index_to_wd hdr sizeof_ptr repo (R_character []) w =
       (Inr (Ref (length (store w))), w\<lparr>store := store w @ [STRSXP [[]]]\<rparr>) \<and>
     (\<forall>p h sb. file_ptr p = 0 \<and> hunk_ptr p = 0 \<longrightarrow>
        git2r_diff_get_file_cb None (p, h, sb) = Inr (0, (p, h, sb)))"
proof -
  from structured_mode [OF assms(1,2,4,5,6), of hdr] assms(3)
  have 1: "\<exists>v w' files. git2r_diff_index_to_wd hdr sizeof_ptr repo R_null w = (Inr v, w') \<and>
        read_files (store w') v = Some files \<and> length files = 0"
    by force
  have "patch_text hdr diff = []"
    using assms(3) by (simp add: patch_text_def print_lines_def)
  with text_mode [OF assms(1,2,4), of hdr sizeof_ptr w]
  have 2: "git2r_diff_index_to_wd hdr sizeof_ptr repo (R_character []) w =
       (Inr (Ref (length (store w))), w\<lparr>store := store w @ [STRSXP [[]]]\<rparr>)"
    by (simp add: c_str_def)
  have 3: "\<forall>p h sb. file_ptr p = 0 \<and> hunk_ptr p = 0 \<longrightarrow>
        git2r_diff_get_file_cb None (p, h, sb) = Inr (0, (p, h, sb))"
    by (simp add: git2r_diff_get_file_cb_def git2r_diff_get_hunk_cb_def save_lines_def
        save_hunks_def bind_f_def)
  from 1 2 3 show ?thesis by blast
qed

theorem empty_diff_witness:
  "git2r_repository_open (Some empty_repository) = Some empty_repository \<and>
   diff_index_to_workdir empty_repository = Inr \<lparr>patches = [], broken = None\<rparr> \<and>
   length (short_buffer example_world) = short_buffer_size \<and> (8::nat) < short_buffer_size \<and>
   (\<exists>v w' files. git2r_diff_index_to_wd example_hdr 8 (Some empty_repository) R_null
        example_world = (Inr v, w') \<and>
      read_files (store w') v = Some files \<and> length files = 0) \<and>
   git2r_diff_index_to_wd example_hdr 8 (Some empty_repository) (R_character []) example_world =
     (Inr (Ref 0), example_world\<lparr>store := [STRSXP [[]]]\<rparr>) \<and>
   git2r_diff_get_file_cb None
       (\<lparr>result = Ref 0, hunk_tmp = Ref 1, line_tmp = Ref 2,
         file_ptr = 0, hunk_ptr = 0, line_ptr = 0\<rparr>, [VECSXP [], VECSXP [], VECSXP []], []) =
     Inr (0, (\<lparr>result = Ref 0, hunk_tmp = Ref 1, line_tmp = Ref 2,
         file_ptr = 0, hunk_ptr = 0, line_ptr = 0\<rparr>, [VECSXP [], VECSXP [], VECSXP []], []))"
proof -
  have 1: "git2r_repository_open (Some empty_repository) = Some empty_repository"
    by (simp add: git2r_repository_open_def)
  have 2: "diff_index_to_workdir empty_repository = Inr \<lparr>patches = [], broken = None\<rparr>"
    by (simp add: empty_repository_def)
  have 3: "length (short_buffer example_world) = short_buffer_size"
    and 4: "(8::nat) < short_buffer_size"
    by (simp_all add: example_world_def short_buffer_size_def)
  have s: "store example_world = []" by (simp add: example_world_def)
  from empty_diff [OF 1 2 _ _ 3 4, of example_hdr] 1 2 3 4 s show ?thesis by simp
qed

end
